theory Spec2Isabelle
  imports Main "HOL-Library.AList" "HOL-Library.Code_Target_Nat"
begin

section \<open>Values and strings of the host language\<close>

text \<open>
  The service is JavaScript. A string is a sequence of UTF-16 code units, each given by
  its number; indices and lengths count code units, as \<open>indexOf\<close>, \<open>slice\<close> and
  \<open>length\<close> do. \<open>str\<close> writes a string of code units below 256 as a literal. Values that
  cross an interface untyped (the request body, the arguments of the exported functions)
  are \<open>jsval\<close>; numbers are kept as integers, since only their truthiness and their type
  are ever looked at.
\<close>

type_synonym jstring = "nat list"

definition str :: "string \<Rightarrow> jstring" where
  "str s = map of_char s"

datatype jsval =
    JUndefined
  | JNull
  | JBool bool
  | JNum int
  | JStr jstring
  | JArr "jsval list"
  | JObj "(jstring \<times> jsval) list"

text \<open>Truthiness, as \<open>!v\<close>, \<open>v && ...\<close> and \<open>v || ...\<close> test it.\<close>

fun truthy :: "jsval \<Rightarrow> bool" where
  "truthy JUndefined = False"
| "truthy JNull = False"
| "truthy (JBool b) = b"
| "truthy (JNum n) = (n \<noteq> 0)"
| "truthy (JStr s) = (s \<noteq> [])"
| "truthy (JArr xs) = True"
| "truthy (JObj kvs) = True"

fun isString :: "jsval \<Rightarrow> bool" where
  "isString (JStr s) = True"
| "isString v = False"

fun isArray :: "jsval \<Rightarrow> bool" where
  "isArray (JArr xs) = True"
| "isArray v = False"

text \<open>
  White space as \<open>String.prototype.trim\<close> and the regular expression class \<open>\s\<close> see it:
  tab, line feed, vertical tab, form feed, carriage return, space, no-break space,
  U+1680, U+2000 to U+200A, the line and paragraph separators, U+202F, U+205F, U+3000 and
  the byte order mark.
\<close>

definition isWhiteSpace :: "nat \<Rightarrow> bool" where
  "isWhiteSpace c =
     (c \<in> {9, 10, 11, 12, 13, 32, 160, 5760, 8232, 8233, 8239, 8287, 12288, 65279} \<or>
      (8192 \<le> c \<and> c \<le> 8202))"

text \<open>
  \<open>String.prototype.toLowerCase\<close>, code unit by code unit. The letters of Basic Latin and
  of the Latin-1 Supplement go to their small letters. The capital I with a dot above,
  U+0130, goes to two code units, the small i and the combining dot above U+0307: the
  lower-cased string is then longer than the original. The case table of the other
  scripts is not reproduced: the model covers text in Basic Latin, Latin-1 and U+0130,
  and leaves every other code unit as it is.
\<close>

definition lowerUnit :: "nat \<Rightarrow> jstring" where
  "lowerUnit c =
     (if (65 \<le> c \<and> c \<le> 90) \<or> (192 \<le> c \<and> c \<le> 222 \<and> c \<noteq> 215) then [c + 32]
      else if c = 304 then [105, 775]
      else [c])"

definition toLowerCase :: "jstring \<Rightarrow> jstring" where
  "toLowerCase s = concat (map lowerUnit s)"

definition trim :: "jstring \<Rightarrow> jstring" where
  "trim s = rev (dropWhile isWhiteSpace (rev (dropWhile isWhiteSpace s)))"

text \<open>\<open>startsWith p s\<close>: the string \<open>s\<close> begins with \<open>p\<close>.\<close>

fun startsWith :: "jstring \<Rightarrow> jstring \<Rightarrow> bool" where
  "startsWith [] s = True"
| "startsWith (p # ps) [] = False"
| "startsWith (p # ps) (c # cs) = (p = c \<and> startsWith ps cs)"

text \<open>
  \<open>hay.indexOf(needle)\<close>: the index of the first occurrence, \<open>None\<close> for JavaScript's
  \<open>-1\<close>. \<open>hay.includes(needle)\<close> is the same search, answering only whether it succeeds.
\<close>

fun indexOf :: "jstring \<Rightarrow> jstring \<Rightarrow> nat option" where
  "indexOf [] needle = (if needle = [] then Some 0 else None)"
| "indexOf (c # cs) needle =
     (if startsWith needle (c # cs) then Some 0
      else map_option Suc (indexOf cs needle))"

fun includesStr :: "jstring \<Rightarrow> jstring \<Rightarrow> bool" where
  "includesStr [] needle = (needle = [])"
| "includesStr (c # cs) needle = (startsWith needle (c # cs) \<or> includesStr cs needle)"

text \<open>\<open>s.slice(i)\<close> for an index \<open>i \<ge> 0\<close>.\<close>

definition slice :: "jstring \<Rightarrow> nat \<Rightarrow> jstring" where
  "slice s i = drop i s"

text \<open>\<open>items.join(sep)\<close>.\<close>

fun join :: "jstring \<Rightarrow> jstring list \<Rightarrow> jstring" where
  "join sep [] = []"
| "join sep [x] = x"
| "join sep (x # y # ys) = x @ sep @ join sep (y # ys)"

text \<open>
  An error object: its message and, for an error raised by the HTTP client for a response
  it rejected, the status of that response (\<open>err.response.status\<close>).
\<close>

record js_error =
  message :: jstring
  response_status :: "nat option"

definition Error :: "jstring \<Rightarrow> js_error" where
  "Error msg = \<lparr>message = msg, response_status = None\<rparr>"

section \<open>The document fetcher: \<open>extractDocId\<close>\<close>

text \<open>
  The regular expression \<^verbatim>\<open>/https?:\/\/docs\.google\.com\/document\/d\/([^/]+)/\<close> is not
  anchored. \<open>docsPrefix\<close> strips its literal part (\<open>https\<close> or \<open>http\<close>, then \<open>docPath\<close>) from
  the start of a string. \<open>matchHere\<close> tries the expression at the start of a string and returns group
  1, the longest run of characters other than a slash, which must not be empty. \<open>regexMatch\<close> is
  \<open>url.match(...)\<close>: the leftmost position where \<open>matchHere\<close> succeeds.
\<close>

fun stripPrefix :: "jstring \<Rightarrow> jstring \<Rightarrow> jstring option" where
  "stripPrefix [] s = Some s"
| "stripPrefix (p # ps) [] = None"
| "stripPrefix (p # ps) (c # cs) = (if p = c then stripPrefix ps cs else None)"

definition notSlash :: "nat \<Rightarrow> bool" where
  "notSlash c = (c \<noteq> of_char CHR ''/'')"

definition docPath :: jstring where
  "docPath = (str ''://docs.google.com/document/d/'')"

definition docsPrefix :: "jstring \<Rightarrow> jstring option" where
  "docsPrefix s =
     (case stripPrefix ((str ''https'') @ docPath) s of
        Some r \<Rightarrow> Some r
      | None \<Rightarrow> stripPrefix ((str ''http'') @ docPath) s)"

definition matchHere :: "jstring \<Rightarrow> jstring option" where
  "matchHere s =
     (case docsPrefix s of
        None \<Rightarrow> None
      | Some r \<Rightarrow>
          (let g = takeWhile notSlash r in if g = [] then None else Some g))"

fun regexMatch :: "jstring \<Rightarrow> jstring option" where
  "regexMatch [] = matchHere []"
| "regexMatch (c # cs) =
     (case matchHere (c # cs) of Some g \<Rightarrow> Some g | None \<Rightarrow> regexMatch cs)"

definition extractDocId :: "jsval \<Rightarrow> js_error + jstring" where
  "extractDocId url =
     (case url of
        JStr s \<Rightarrow>
          if trim s = [] then Inl (Error (str ''Invalid URL: URL must be a non-empty string.''))
          else (case regexMatch s of
                  None \<Rightarrow> Inl (Error (str ''Invalid Google Docs URL: Unable to extract document ID.''))
                | Some g \<Rightarrow> Inr g)
      | _ \<Rightarrow> Inl (Error (str ''Invalid URL: URL must be a non-empty string.'')))"

text \<open>The two messages with which \<open>extractDocId\<close> rejects its input.\<close>

definition invalidInput :: "js_error \<Rightarrow> bool" where
  "invalidInput e =
     (message e = (str ''Invalid URL: URL must be a non-empty string.'') \<or>
      message e = (str ''Invalid Google Docs URL: Unable to extract document ID.''))"

text \<open>
  The form the specification names: a scheme, the host and path of a document, an
  identifier without a slash, a slash, and anything after it.
\<close>

definition docsUrlForm :: "jstring \<Rightarrow> bool" where
  "docsUrlForm s =
     (case docsPrefix s of
        None \<Rightarrow> False
      | Some r \<Rightarrow> takeWhile notSlash r \<noteq> [] \<and> dropWhile notSlash r \<noteq> [])"

text \<open>
  What the unanchored expression accepts: the document prefix somewhere in the string,
  followed by a character that is not a slash.
\<close>

definition containsDocsUrl :: "jstring \<Rightarrow> bool" where
  "containsDocsUrl s =
     (\<exists>pre scheme c rest. (scheme = (str ''https'') \<or> scheme = (str ''http'')) \<and> c \<noteq> (of_char CHR ''/'') \<and>
        s = pre @ scheme @ docPath @ c # rest)"

section \<open>The structured extractor: \<open>extractStructuredData\<close>\<close>

text \<open>
  The extractor reads the document through the HTML library: \<open>cheerio.load(html)\<close> parses
  the string, \<open>$(selector)\<close> lists the matching elements in document order, \<open>.text()\<close> is
  the concatenated text of an element's descendants, \<open>.find(selector)\<close> lists the matching
  proper descendants. The parser is not part of the repository: the model takes it as the
  parameter \<open>load\<close> and works on the tree it returns, a list of nodes that are text or an
  element with its tag name (lower case, as the parser gives it) and its children.
\<close>

datatype node = Text jstring | Element jstring "node list"

fun tagName :: "node \<Rightarrow> jstring" where
  "tagName (Element t cs) = t"
| "tagName (Text s) = []"

fun children :: "node \<Rightarrow> node list" where
  "children (Element t cs) = cs"
| "children (Text s) = []"

fun textContent :: "node \<Rightarrow> jstring" where
  "textContent (Text s) = s"
| "textContent (Element t cs) = concat (map textContent cs)"

text \<open>The elements of a subtree in document order, its root first.\<close>

fun elementsOf :: "node \<Rightarrow> node list" where
  "elementsOf (Text s) = []"
| "elementsOf (Element t cs) = Element t cs # concat (map elementsOf cs)"

definition selectAll :: "jstring list \<Rightarrow> node list \<Rightarrow> node list" where
  "selectAll tags doc = filter (\<lambda>e. tagName e \<in> set tags) (concat (map elementsOf doc))"

definition findAll :: "jstring list \<Rightarrow> node \<Rightarrow> node list" where
  "findAll tags elem = selectAll tags (children elem)"

definition selector :: "jstring list" where
  "selector = [(str ''p''), (str ''h1''), (str ''h2''), (str ''h3''), (str ''ul''), (str ''table'')]"

text \<open>
  A keyword as the extractor keeps it: \<open>{original, normalized}\<close>. Entries of the keyword
  array that are not strings, or are blank, are dropped.
\<close>

record keyword =
  original :: jstring
  normalized :: jstring

fun keywordOf :: "jsval \<Rightarrow> keyword option" where
  "keywordOf (JStr k) =
     (if trim k \<noteq> [] then Some \<lparr>original = k, normalized = trim (toLowerCase k)\<rparr> else None)"
| "keywordOf v = None"

definition normalizeKeywords :: "jsval list \<Rightarrow> keyword list" where
  "normalizeKeywords keywords = List.map_filter keywordOf keywords"

text \<open>\<open>text.replace(/\s+/g, ' ')\<close>: every run of white space becomes one space.\<close>

function collapseWhiteSpace :: "jstring \<Rightarrow> jstring" where
  "collapseWhiteSpace [] = []"
| "collapseWhiteSpace (c # cs) =
     (if isWhiteSpace c then (of_char CHR '' '') # collapseWhiteSpace (dropWhile isWhiteSpace cs)
      else c # collapseWhiteSpace cs)"
  by pat_completeness auto
termination
  by (relation "measure length") (auto simp: less_Suc_eq_le length_dropWhile_le)

definition normalizeText :: "jstring \<Rightarrow> jstring" where
  "normalizeText text = toLowerCase (trim (collapseWhiteSpace text))"

text \<open>
  The result object \<open>structuredData\<close>, created as \<open>{}\<close>: its properties in insertion
  order. An assignment \<open>structuredData[k] = v\<close> of a string \<open>v\<close> replaces the value of an
  existing key in place and appends a new key, as \<open>AList.update\<close> does, for every key but
  \<open>__proto__\<close>: that name is the prototype accessor of the object, and assigning a
  string to it creates no property and changes nothing. The order in which JavaScript
  lists keys that are array indices is outside the model.
\<close>

type_synonym structured = "(jstring \<times> jstring) list"

definition protoKey :: jstring where
  "protoKey = str ''__proto__''"

definition jsAssign :: "jstring \<Rightarrow> jstring \<Rightarrow> structured \<Rightarrow> structured" where
  "jsAssign k v obj = (if k = protoKey then obj else AList.update k v obj)"

text \<open>First pass, the body of the inner \<open>forEach\<close>: one element text, one keyword.\<close>

definition inlineKeyword :: "jstring \<Rightarrow> structured \<Rightarrow> keyword \<Rightarrow> structured" where
  "inlineKeyword rawText structuredData keyword =
     (let lowerText = toLowerCase rawText in
      if \<not> includesStr lowerText (normalized keyword) then structuredData
      else
        (case indexOf lowerText (normalized keyword) of
           None \<Rightarrow> structuredData
         | Some idx \<Rightarrow>
             (let afterKeyword = slice rawText (idx + length (normalized keyword)) in
              case indexOf afterKeyword (str '':'') of
                None \<Rightarrow> structuredData
              | Some colonIndex \<Rightarrow>
                  (let v = trim (slice afterKeyword (colonIndex + 1)) in
                   if v \<noteq> [] then jsAssign (original keyword) v structuredData
                   else structuredData))))"

text \<open>First pass, the body of the outer \<open>each\<close>: one element, every keyword in order.\<close>

definition firstPassElem :: "keyword list \<Rightarrow> structured \<Rightarrow> node \<Rightarrow> structured" where
  "firstPassElem normalizedKeywords structuredData elem =
     (let rawText = trim (textContent elem) in
      if rawText = [] then structuredData
      else foldl (inlineKeyword rawText) structuredData normalizedKeywords)"

definition firstPass :: "keyword list \<Rightarrow> node list \<Rightarrow> structured \<Rightarrow> structured" where
  "firstPass normalizedKeywords elems structuredData =
     foldl (firstPassElem normalizedKeywords) structuredData elems"

text \<open>The value a pending label takes from an element, by the element's kind.\<close>

definition nonEmptyTexts :: "node list \<Rightarrow> jstring list" where
  "nonEmptyTexts elems = filter (\<lambda>t. t \<noteq> []) (map (\<lambda>e. trim (textContent e)) elems)"

definition valueText :: "node \<Rightarrow> jstring \<Rightarrow> jstring" where
  "valueText elem rawText =
     (let tag = toLowerCase (tagName elem) in
      if tag = (str ''ul'') then join (str '' | '') (nonEmptyTexts (findAll [(str ''li'')] elem))
      else if tag = (str ''table'') then join (str '' | '') (nonEmptyTexts (findAll [(str ''th''), (str ''td'')] elem))
      else rawText)"

text \<open>
  Label detection, the \<open>forEach\<close> at the end of the second pass: the first keyword, in
  the caller's order, whose normalized form is the element's normalized text, provided the
  raw text has no colon.
\<close>

definition detectStep :: "jstring \<Rightarrow> jstring \<Rightarrow> keyword option \<Rightarrow> keyword \<Rightarrow> keyword option" where
  "detectStep normalizedElemText rawText pendingLabel keyword =
     (if pendingLabel \<noteq> None then pendingLabel
      else if normalizedElemText = normalized keyword \<and> \<not> includesStr rawText (str '':'')
      then Some keyword else pendingLabel)"

definition detectLabel :: "keyword list \<Rightarrow> jstring \<Rightarrow> jstring \<Rightarrow> keyword option" where
  "detectLabel normalizedKeywords normalizedElemText rawText =
     foldl (detectStep normalizedElemText rawText) None normalizedKeywords"

text \<open>
  Second pass, the body of the \<open>each\<close>: the state is the pending label and the result
  object.
\<close>

type_synonym pass2_state = "keyword option \<times> structured"

definition secondPassElem :: "keyword list \<Rightarrow> pass2_state \<Rightarrow> node \<Rightarrow> pass2_state" where
  "secondPassElem normalizedKeywords st elem =
     (let rawText = trim (textContent elem) in
      if rawText = [] then st
      else
        (let normalizedElemText = normalizeText rawText in
         case fst st of
           Some pendingLabel \<Rightarrow>
             if normalizedElemText = normalized pendingLabel then st
             else
               (let v = valueText elem rawText in
                if v \<noteq> [] then (None, jsAssign (original pendingLabel) v (snd st))
                else st)
         | None \<Rightarrow> (detectLabel normalizedKeywords normalizedElemText rawText, snd st)))"

definition secondPass :: "keyword list \<Rightarrow> node list \<Rightarrow> pass2_state \<Rightarrow> pass2_state" where
  "secondPass normalizedKeywords elems st = foldl (secondPassElem normalizedKeywords) st elems"

text \<open>Both passes over the selected elements of a parsed document.\<close>

definition extractFromDocument :: "node list \<Rightarrow> keyword list \<Rightarrow> structured" where
  "extractFromDocument doc normalizedKeywords =
     (let elems = selectAll selector doc in
      snd (secondPass normalizedKeywords elems
             (None, firstPass normalizedKeywords elems [])))"

definition extractStructuredData ::
    "(jstring \<Rightarrow> node list) \<Rightarrow> jsval \<Rightarrow> jsval \<Rightarrow> js_error + structured" where
  "extractStructuredData load html keywords =
     (case html of
        JStr h \<Rightarrow>
          (case keywords of
             JArr ks \<Rightarrow> Inr (extractFromDocument (load h) (normalizeKeywords ks))
           | _ \<Rightarrow> Inl (Error (str ''Keywords must be provided as an array of strings.'')))
      | _ \<Rightarrow> Inl (Error (str ''HTML must be a string.'')))"

text \<open>
  The trees the parser returns for the two fragments the specification tests with:
  \<^verbatim>\<open><p>Customer Name: John Doe</p>\<close> and \<^verbatim>\<open><h2>Product title</h2><p>Widget X</p>\<close>
  (a fragment is wrapped in \<open>html\<close>, \<open>head\<close> and \<open>body\<close>).
\<close>

definition inlineExampleDoc :: "node list" where
  "inlineExampleDoc =
     [Element (str ''html'')
        [Element (str ''head'') [],
         Element (str ''body'') [Element (str ''p'') [Text (str ''Customer Name: John Doe'')]]]]"

definition labelExampleDoc :: "node list" where
  "labelExampleDoc =
     [Element (str ''html'')
        [Element (str ''head'') [],
         Element (str ''body'')
           [Element (str ''h2'') [Text (str ''Product title'')], Element (str ''p'') [Text (str ''Widget X'')]]]]"


section \<open>The document fetcher: \<open>downloadDoc\<close>\<close>

text \<open>
  The world outside the process is a record of what it answers. \<open>fetch\<close> is the HTTP
  exchange for a URL: the server's response, or a failure of the transport with its
  message. The file system calls (\<open>fs.mkdtempSync\<close>, \<open>fs.writeFileSync\<close>,
  \<open>fs.existsSync\<close>), \<open>path.join\<close>, the DOCX converter and the HTML parser answer as the
  record says; a file system call that throws gives the message of its error. The
  best-effort removal of the temporary file and directory never changes what a function
  returns or throws (its own errors are swallowed) and is left out.
\<close>

record http_response =
  status :: nat
  contentType :: "jstring option"
  data :: jstring

datatype transport = Answered http_response | NetworkFailure jstring

record env =
  mkdtemp :: "jstring + jstring"
  pathJoin :: "jstring \<Rightarrow> jstring \<Rightarrow> jstring"
  fetch :: "jstring \<Rightarrow> transport"
  writeFile :: "jstring \<Rightarrow> jstring \<Rightarrow> jstring option"
  existsSync :: "jstring \<Rightarrow> bool"
  mammoth :: "jstring \<Rightarrow> js_error + jstring"
  cheerioLoad :: "jstring \<Rightarrow> node list"

text \<open>
  The HTTP client with the option \<open>validateStatus\<close> that \<open>downloadDoc\<close> passes: a response
  whose status the option accepts resolves the request; any other response rejects it with
  an error that carries the response and the client's message for it; a transport failure
  rejects it with an error without a response.
\<close>

datatype axios_result = Resolved http_response | Rejected js_error

definition validateStatus :: "nat \<Rightarrow> bool" where
  "validateStatus st = (200 \<le> st \<and> st < 400)"

function decimal :: "nat \<Rightarrow> jstring" where
  "decimal n = (if n < 10 then [48 + n] else decimal (n div 10) @ [48 + n mod 10])"
  by pat_completeness auto
termination
  by (relation "measure id") auto

declare decimal.simps [simp del]

definition axiosGet :: "(nat \<Rightarrow> bool) \<Rightarrow> transport \<Rightarrow> axios_result" where
  "axiosGet accept t =
     (case t of
        Answered response \<Rightarrow>
          if accept (status response) then Resolved response
          else Rejected \<lparr>message = (str ''Request failed with status code '') @ decimal (status response),
                          response_status = Some (status response)\<rparr>
      | NetworkFailure msg \<Rightarrow> Rejected \<lparr>message = msg, response_status = None\<rparr>)"

definition buildExportUrl :: "jstring \<Rightarrow> jstring" where
  "buildExportUrl docId = (str ''https://docs.google.com/document/d/'') @ docId @ (str ''/export?format=docx'')"

definition docxMime :: jstring where
  "docxMime = (str ''application/vnd.openxmlformats-officedocument.wordprocessingml.document'')"

definition unauthorizedMsg :: jstring where
  "unauthorizedMsg =
     (str ''Unauthorized access: The Google Doc is not publicly accessible or requires authentication.'')"

definition unexpectedMsg :: jstring where
  "unexpectedMsg =
     (str ''Unexpected response from Google Docs. The document may not be publicly accessible or the URL may be invalid.'')"

definition notFoundMsg :: jstring where
  "notFoundMsg = (str ''Document not found: Please verify the Google Docs URL.'')"

definition failedPrefix :: jstring where
  "failedPrefix = (str ''Failed to download document from Google Docs: '')"

definition isDocx :: "jstring option \<Rightarrow> bool" where
  "isDocx ct = (case ct of None \<Rightarrow> False | Some c \<Rightarrow> c \<noteq> [] \<and> includesStr c docxMime)"

text \<open>The \<open>try\<close> block of \<open>downloadDoc\<close>: the path of the written file, or what is thrown.\<close>

definition tryDownload :: "env \<Rightarrow> jstring \<Rightarrow> jstring \<Rightarrow> js_error + jstring" where
  "tryDownload env exportUrl tempFilePath =
     (case axiosGet validateStatus (fetch env exportUrl) of
        Rejected err \<Rightarrow> Inl err
      | Resolved response \<Rightarrow>
          if status response = 401 \<or> status response = 403 then Inl (Error unauthorizedMsg)
          else if \<not> isDocx (contentType response) then Inl (Error unexpectedMsg)
          else (case writeFile env tempFilePath (data response) of
                  Some msg \<Rightarrow> Inl (Error msg)
                | None \<Rightarrow> Inr tempFilePath))"

text \<open>The \<open>catch\<close> block: the error it throws for the error it caught.\<close>

definition catchDownload :: "js_error \<Rightarrow> js_error" where
  "catchDownload err =
     (if response_status err = Some 404 then Error notFoundMsg
      else if message err \<noteq> [] \<and> includesStr (toLowerCase (message err)) (str ''unauthorized access'')
      then err
      else Error (failedPrefix @ message err))"

definition downloadDoc :: "env \<Rightarrow> jsval \<Rightarrow> js_error + jstring" where
  "downloadDoc env docUrl =
     (case extractDocId docUrl of
        Inl e \<Rightarrow> Inl e
      | Inr docId \<Rightarrow>
          (case mkdtemp env of
             Inl msg \<Rightarrow> Inl (Error msg)
           | Inr tempDir \<Rightarrow>
               (case tryDownload env (buildExportUrl docId)
                       (pathJoin env tempDir (docId @ (str ''.docx''))) of
                  Inl err \<Rightarrow> Inl (catchDownload err)
                | Inr tempFilePath \<Rightarrow> Inr tempFilePath)))"

section \<open>The converter and the orchestrator\<close>

definition convertToHtml :: "env \<Rightarrow> jstring \<Rightarrow> js_error + jstring" where
  "convertToHtml env docxPath =
     (if docxPath = [] then Inl (Error (str ''Invalid DOCX path.''))
      else if \<not> existsSync env docxPath
      then Inl (Error (str ''DOCX file does not exist at the given path.''))
      else (case mammoth env docxPath of
              Inl err \<Rightarrow> Inl (Error ((str ''Failed to convert DOCX to HTML: '') @ message err))
            | Inr v \<Rightarrow> Inr v))"

definition processGoogleDoc :: "env \<Rightarrow> jsval \<Rightarrow> jsval \<Rightarrow> js_error + jstring \<times> structured" where
  "processGoogleDoc env url keywords =
     (case downloadDoc env url of
        Inl e \<Rightarrow> Inl e
      | Inr tempFilePath \<Rightarrow>
          (case convertToHtml env tempFilePath of
             Inl e \<Rightarrow> Inl e
           | Inr rawHtml \<Rightarrow>
               (case extractStructuredData (cheerioLoad env) (JStr rawHtml)
                       (if truthy keywords then keywords else JArr []) of
                  Inl e \<Rightarrow> Inl e
                | Inr structuredData \<Rightarrow> Inr (rawHtml, structuredData))))"

section \<open>The HTTP endpoint: \<open>POST /parse-doc\<close>\<close>

text \<open>
  The request body as the JSON body parser leaves it in \<open>req.body\<close>. Destructuring
  \<open>{ url, keywords }\<close> reads the two properties, \<open>undefined\<close> when the body has none of that
  name or is not an object. The response is its status and its JSON body.
\<close>

datatype response_body = ErrorBody jstring | ResultBody jstring structured

definition property :: "jsval \<Rightarrow> jstring \<Rightarrow> jsval" where
  "property obj name =
     (case obj of
        JObj kvs \<Rightarrow> (case map_of kvs name of Some v \<Rightarrow> v | None \<Rightarrow> JUndefined)
      | _ \<Rightarrow> JUndefined)"

definition urlRequiredMsg :: jstring where
  \<open>urlRequiredMsg = (str ''Invalid request: "url" is required and must be a string.'')\<close>

definition keywordsArrayMsg :: jstring where
  \<open>keywordsArrayMsg = (str ''Invalid request: "keywords" must be an array of strings if provided.'')\<close>

text \<open>The status the \<open>catch\<close> block of the handler chooses for a message.\<close>

definition statusFor :: "jstring \<Rightarrow> nat" where
  "statusFor msg =
     (if includesStr msg (str ''Unauthorized access'') \<or> includesStr msg (str ''not publicly accessible'')
      then 403
      else if includesStr msg (str ''Document not found'') then 404
      else if includesStr msg (str ''Invalid Google Docs URL'') then 400
      else 500)"

definition errorMessage :: "js_error \<Rightarrow> jstring" where
  "errorMessage err = (if message err \<noteq> [] then message err else (str ''Unknown error''))"

definition parseDoc :: "env \<Rightarrow> jsval \<Rightarrow> nat \<times> response_body" where
  "parseDoc env reqBody =
     (let b = (if truthy reqBody then reqBody else JObj []);
          url = property b (str ''url'');
          keywords = property b (str ''keywords'')
      in
        if \<not> truthy url \<or> \<not> isString url then (400, ErrorBody urlRequiredMsg)
        else if truthy keywords \<and> \<not> isArray keywords then (400, ErrorBody keywordsArrayMsg)
        else
          (case processGoogleDoc env url (if truthy keywords then keywords else JArr []) of
             Inr (rawHtml, structuredData) \<Rightarrow> (200, ResultBody rawHtml structuredData)
           | Inl err \<Rightarrow> (statusFor (errorMessage err), ErrorBody (errorMessage err))))"

text \<open>
  An environment in which everything succeeds: every export request is answered with a
  DOCX document, which converts to the fragment \<^verbatim>\<open><p>Customer Name: John Doe</p>\<close>.
\<close>

definition publicDocEnv :: env where
  "publicDocEnv =
     \<lparr>mkdtemp = Inr (str ''/tmp/gdoc-parser-a1''),
      pathJoin = (\<lambda>dir name. dir @ (str ''/'') @ name),
      fetch = (\<lambda>u. Answered \<lparr>status = 200, contentType = Some docxMime, data = (str ''PK'')\<rparr>),
      writeFile = (\<lambda>p d. None),
      existsSync = (\<lambda>p. True),
      mammoth = (\<lambda>p. Inr (str ''<p>Customer Name: John Doe</p>'')),
      cheerioLoad = (\<lambda>h. inlineExampleDoc)\<rparr>"

text \<open>
  The same, except that the export request is answered with the HTML of a sign-in page.
\<close>

definition privateDocEnv :: env where
  "privateDocEnv =
     publicDocEnv\<lparr>fetch := (\<lambda>u. Answered \<lparr>status = 200, contentType = Some (str ''text/html; charset=utf-8''),
                                           data = (str ''<html>'')\<rparr>)\<rparr>"

text \<open>
  The four outcomes the specification lists for a failed download, told apart by the
  text of the error message.
\<close>

definition unauthorizedOutcome :: "js_error \<Rightarrow> bool" where
  "unauthorizedOutcome e = includesStr (message e) (str ''Unauthorized access'')"

definition unexpectedOutcome :: "js_error \<Rightarrow> bool" where
  "unexpectedOutcome e = includesStr (message e) (str ''Unexpected response from Google Docs'')"

definition notFoundOutcome :: "js_error \<Rightarrow> bool" where
  "notFoundOutcome e = includesStr (message e) (str ''Document not found'')"

definition genericOutcome :: "js_error \<Rightarrow> bool" where
  "genericOutcome e = includesStr (message e) (str ''Failed to download document from Google Docs'')"


chapter \<open>Properties\<close>

section \<open>Properties of \<open>extractDocId\<close>\<close>

lemma stripPrefix_Some_iff: "stripPrefix p s = Some r \<longleftrightarrow> s = p @ r"
  by (induction p s rule: stripPrefix.induct) auto

lemma all_dropWhile_iff: "(\<forall>c\<in>set (dropWhile P s). P c) \<longleftrightarrow> (\<forall>c\<in>set s. P c)"
  by (induction s) auto

lemma trim_eq_Nil_iff: "trim s = [] \<longleftrightarrow> (\<forall>c\<in>set s. isWhiteSpace c)"
  by (simp add: trim_def dropWhile_eq_Nil_conv all_dropWhile_iff)

lemma stripPrefix_append: "stripPrefix p (p @ r) = Some r"
  by (simp add: stripPrefix_Some_iff)

lemma https_not_http: "stripPrefix ((str ''https'') @ docPath) ((str ''http'') @ docPath @ r) = None"
  by (simp add: docPath_def str_def)

lemma docsPrefix_https: "docsPrefix ((str ''https'') @ docPath @ r) = Some r"
  using stripPrefix_append [of "(str ''https'') @ docPath" r]
  by (simp only: docsPrefix_def append_assoc option.simps)

lemma docsPrefix_http: "docsPrefix ((str ''http'') @ docPath @ r) = Some r"
  using stripPrefix_append [of "(str ''http'') @ docPath" r]
  by (simp only: docsPrefix_def append_assoc option.simps https_not_http)

lemma docsPrefix_Some_iff:
  "docsPrefix s = Some r \<longleftrightarrow>
     (\<exists>scheme. (scheme = (str ''https'') \<or> scheme = (str ''http'')) \<and> s = scheme @ docPath @ r)"
  (is "?L \<longleftrightarrow> ?R")
proof
  assume L: ?L
  show ?R
  proof (cases "stripPrefix ((str ''https'') @ docPath) s")
    case None
    with L have "stripPrefix ((str ''http'') @ docPath) s = Some r"
      by (simp only: docsPrefix_def option.simps)
    then have "s = (str ''http'') @ docPath @ r"
      by (simp only: stripPrefix_Some_iff append_assoc)
    then show ?thesis by blast
  next
    case (Some r')
    with L have "r' = r" by (simp only: docsPrefix_def option.simps)
    with Some have "s = (str ''https'') @ docPath @ r"
      by (simp only: stripPrefix_Some_iff append_assoc)
    then show ?thesis by blast
  qed
next
  assume ?R
  then consider "s = (str ''https'') @ docPath @ r" | "s = (str ''http'') @ docPath @ r" by blast
  then show ?L
    by cases (simp_all only: docsPrefix_https docsPrefix_http)
qed

lemma matchHere_Some_iff:
  "matchHere s = Some g \<longleftrightarrow>
     (\<exists>r. docsPrefix s = Some r \<and> g = takeWhile notSlash r \<and> g \<noteq> [])"
  by (auto simp: matchHere_def Let_def split: option.splits)

lemma matchHere_None_iff:
  "matchHere s = None \<longleftrightarrow> (\<forall>r. docsPrefix s = Some r \<longrightarrow> (r = [] \<or> hd r = (of_char CHR ''/'')))"
  by (auto simp: matchHere_def Let_def takeWhile_eq_Nil_iff notSlash_def split: option.splits)

lemma matchHere_form:
  assumes "scheme = (str ''https'') \<or> scheme = (str ''http'')" "ID \<noteq> []" "(of_char CHR ''/'') \<notin> set ID"
  shows "matchHere (scheme @ docPath @ ID @ (str ''/'') @ rest) = Some ID"
proof -
  have "docsPrefix (scheme @ docPath @ ID @ (str ''/'') @ rest) = Some (ID @ (str ''/'') @ rest)"
    using assms(1) unfolding docsPrefix_Some_iff by blast
  moreover have "takeWhile notSlash (ID @ (str ''/'') @ rest) = ID"
  proof -
    have "\<forall>x\<in>set ID. notSlash x" using assms(3) by (auto simp: notSlash_def)
    then have "takeWhile notSlash (ID @ (str ''/'') @ rest) = ID @ takeWhile notSlash ((str ''/'') @ rest)"
      by (simp add: takeWhile_append2)
    then show ?thesis by (simp add: notSlash_def str_def)
  qed
  ultimately show ?thesis using assms(2) by (simp add: matchHere_def)
qed

lemma matchHere_not_None_iff:
  "matchHere s \<noteq> None \<longleftrightarrow>
     (\<exists>scheme c rest. (scheme = (str ''https'') \<or> scheme = (str ''http'')) \<and> c \<noteq> (of_char CHR ''/'') \<and>
        s = scheme @ docPath @ c # rest)"
  (is "?L \<longleftrightarrow> ?R")
proof
  assume ?L
  then obtain r where r: "docsPrefix s = Some r" "r \<noteq> []" "hd r \<noteq> (of_char CHR ''/'')"
    unfolding matchHere_None_iff by blast
  from r(2) obtain c rest where cr: "r = c # rest" by (cases r) simp_all
  from r(1) obtain scheme where sch: "scheme = (str ''https'') \<or> scheme = (str ''http'')"
    "s = scheme @ docPath @ r"
    unfolding docsPrefix_Some_iff by blast
  from r(3) cr have "c \<noteq> (of_char CHR ''/'')" by simp
  with sch cr show ?R by blast
next
  assume ?R
  then obtain scheme c rest where h: "scheme = (str ''https'') \<or> scheme = (str ''http'')" "c \<noteq> (of_char CHR ''/'')"
    "s = scheme @ docPath @ c # rest" by blast
  from h(1,3) have "docsPrefix s = Some (c # rest)" unfolding docsPrefix_Some_iff by blast
  with h(2) show ?L by (simp add: matchHere_def notSlash_def)
qed

lemma containsDocsUrl_Nil: "\<not> containsDocsUrl []"
  by (simp add: containsDocsUrl_def)

lemma containsDocsUrl_Cons:
  "containsDocsUrl (a # s) \<longleftrightarrow> matchHere (a # s) \<noteq> None \<or> containsDocsUrl s"
  (is "?A \<longleftrightarrow> ?B \<or> ?C")
proof
  assume ?A
  then obtain pre scheme c rest where h: "scheme = (str ''https'') \<or> scheme = (str ''http'')" "c \<noteq> (of_char CHR ''/'')"
    "a # s = pre @ scheme @ docPath @ c # rest"
    unfolding containsDocsUrl_def by blast
  define X where "X = scheme @ docPath @ c # rest"
  show "?B \<or> ?C"
  proof (cases pre)
    case Nil
    with h(3) have "a # s = scheme @ docPath @ c # rest" by simp
    with h(1,2) have ?B unfolding matchHere_not_None_iff by blast
    then show ?thesis ..
  next
    case (Cons p pre')
    from h(3) have "a # s = pre @ X" by (simp only: X_def)
    with Cons have "s = pre' @ X" by simp
    then have "s = pre' @ scheme @ docPath @ c # rest" by (simp only: X_def)
    with h(1,2) have ?C unfolding containsDocsUrl_def by blast
    then show ?thesis ..
  qed
next
  assume "?B \<or> ?C"
  then show ?A
  proof
    assume ?B
    then obtain scheme c rest where h: "scheme = (str ''https'') \<or> scheme = (str ''http'')" "c \<noteq> (of_char CHR ''/'')"
      "a # s = scheme @ docPath @ c # rest"
      unfolding matchHere_not_None_iff by blast
    from h(3) have "a # s = [] @ scheme @ docPath @ c # rest" by (simp only: append_Nil)
    with h(1,2) show ?A unfolding containsDocsUrl_def by blast
  next
    assume ?C
    then obtain pre scheme c rest where h: "scheme = (str ''https'') \<or> scheme = (str ''http'')" "c \<noteq> (of_char CHR ''/'')"
      "s = pre @ scheme @ docPath @ c # rest"
      unfolding containsDocsUrl_def by blast
    from h(3) have "a # s = (a # pre) @ scheme @ docPath @ c # rest" by (simp only: append_Cons)
    with h(1,2) show ?A unfolding containsDocsUrl_def by blast
  qed
qed

lemma regexMatch_None_iff: "regexMatch s = None \<longleftrightarrow> \<not> containsDocsUrl s"
proof (induction s)
  case Nil
  have "docsPrefix [] = None" by (simp add: docsPrefix_def docPath_def str_def)
  then have "regexMatch [] = None" by (simp add: matchHere_def)
  with containsDocsUrl_Nil show ?case by simp
next
  case (Cons a s)
  show ?case
  proof (cases "matchHere (a # s)")
    case None
    with Cons show ?thesis by (simp add: containsDocsUrl_Cons)
  next
    case (Some g)
    then show ?thesis by (simp add: containsDocsUrl_Cons)
  qed
qed

lemma whiteSpace_not_h: "\<not> isWhiteSpace (of_char CHR ''h'')"
  by (simp add: isWhiteSpace_def)

lemma containsDocsUrl_not_blank: "containsDocsUrl s \<Longrightarrow> trim s \<noteq> []"
  unfolding containsDocsUrl_def trim_eq_Nil_iff
  using whiteSpace_not_h by (auto simp: str_def)

lemma regexMatch_form:
  assumes "scheme = (str ''https'') \<or> scheme = (str ''http'')" "ID \<noteq> []" "(of_char CHR ''/'') \<notin> set ID"
  shows "regexMatch (scheme @ docPath @ ID @ (str ''/'') @ rest) = Some ID"
proof -
  obtain c cs where "scheme @ docPath @ ID @ (str ''/'') @ rest = c # cs"
    using assms(1) by (auto simp: str_def)
  then show ?thesis using matchHere_form [OF assms, of rest] by simp
qed

lemma regexMatch_leftmost:
  "regexMatch s = Some g \<Longrightarrow>
     \<exists>n\<le>length s. matchHere (drop n s) = Some g \<and> (\<forall>i<n. matchHere (drop i s) = None)"
proof (induction s)
  case Nil
  then show ?case by simp
next
  case (Cons a s)
  show ?case
  proof (cases "matchHere (a # s)")
    case (Some g')
    with Cons.prems have "matchHere (drop 0 (a # s)) = Some g" by simp
    then show ?thesis by blast
  next
    case None
    with Cons.prems have "regexMatch s = Some g" by simp
    from Cons.IH [OF this] obtain n where n: "n \<le> length s" "matchHere (drop n s) = Some g"
      "\<forall>i<n. matchHere (drop i s) = None" by blast
    have "\<forall>i<Suc n. matchHere (drop i (a # s)) = None"
    proof (intro allI impI)
      fix i assume "i < Suc n"
      then show "matchHere (drop i (a # s)) = None"
        using None n(3) by (cases i) auto
    qed
    with n(1,2) show ?thesis
      by (intro exI [of _ "Suc n"]) simp
  qed
qed

lemma regexMatch_Some:
  assumes "regexMatch s = Some g"
  shows "g \<noteq> [] \<and> (of_char CHR ''/'') \<notin> set g \<and>
     (\<exists>pre scheme rest. (scheme = (str ''https'') \<or> scheme = (str ''http'')) \<and>
        s = pre @ scheme @ docPath @ g @ rest \<and>
        (rest = [] \<or> hd rest = (of_char CHR ''/'')))"
proof -
  from regexMatch_leftmost [OF assms] obtain n where n: "n \<le> length s" "matchHere (drop n s) = Some g"
    by blast
  then obtain r where r: "docsPrefix (drop n s) = Some r" "g = takeWhile notSlash r" "g \<noteq> []"
    unfolding matchHere_Some_iff by blast
  then obtain scheme where sch: "scheme = (str ''https'') \<or> scheme = (str ''http'')"
    "drop n s = scheme @ docPath @ r"
    unfolding docsPrefix_Some_iff by blast
  have "r = g @ dropWhile notSlash r" using r(2) by simp
  moreover have "dropWhile notSlash r = [] \<or> hd (dropWhile notSlash r) = (of_char CHR ''/'')"
    using hd_dropWhile [of notSlash r] by (auto simp: notSlash_def)
  moreover have "s = take n s @ drop n s" by simp
  ultimately have "s = take n s @ scheme @ docPath @ g @ dropWhile notSlash r \<and>
     (dropWhile notSlash r = [] \<or> hd (dropWhile notSlash r) = (of_char CHR ''/''))"
    using sch(2) by metis
  moreover have "(of_char CHR ''/'') \<notin> set g"
    using r(2) set_takeWhileD [of "(of_char CHR ''/'')" notSlash r] by (auto simp: notSlash_def)
  ultimately show ?thesis using r(3) sch(1) by blast
qed

lemma docsUrlForm_iff:
  "docsUrlForm s \<longleftrightarrow>
     (\<exists>scheme ID rest. (scheme = (str ''https'') \<or> scheme = (str ''http'')) \<and> ID \<noteq> [] \<and>
        (of_char CHR ''/'') \<notin> set ID \<and> s = scheme @ docPath @ ID @ (str ''/'') @ rest)"
  (is "?L \<longleftrightarrow> ?R")
proof
  assume ?L
  then obtain r where r: "docsPrefix s = Some r" "takeWhile notSlash r \<noteq> []"
    "dropWhile notSlash r \<noteq> []"
    by (auto simp: docsUrlForm_def split: option.splits)
  then obtain scheme where sch: "scheme = (str ''https'') \<or> scheme = (str ''http'')"
    "s = scheme @ docPath @ r"
    unfolding docsPrefix_Some_iff by blast
  have "hd (dropWhile notSlash r) = (of_char CHR ''/'')"
    using hd_dropWhile [OF r(3)] by (simp add: notSlash_def)
  then have "dropWhile notSlash r = (str ''/'') @ tl (dropWhile notSlash r)"
    using r(3) by (cases "dropWhile notSlash r") (auto simp: str_def)
  then have "r = takeWhile notSlash r @ (str ''/'') @ tl (dropWhile notSlash r)"
    by (metis takeWhile_dropWhile_id)
  moreover have "(of_char CHR ''/'') \<notin> set (takeWhile notSlash r)"
    using set_takeWhileD [of "(of_char CHR ''/'')" notSlash r] by (auto simp: notSlash_def)
  ultimately show ?R using sch r(2) by metis
next
  assume ?R
  then obtain scheme ID rest where h: "scheme = (str ''https'') \<or> scheme = (str ''http'')" "ID \<noteq> []"
    "(of_char CHR ''/'') \<notin> set ID" "s = scheme @ docPath @ ID @ (str ''/'') @ rest"
    by blast
  then have p: "docsPrefix s = Some (ID @ (str ''/'') @ rest)" unfolding docsPrefix_Some_iff by blast
  have all: "\<forall>x\<in>set ID. notSlash x" using h(3) by (auto simp: notSlash_def)
  then have "takeWhile notSlash (ID @ (str ''/'') @ rest) = ID @ takeWhile notSlash ((str ''/'') @ rest)"
    by (simp add: takeWhile_append2)
  moreover from all have "dropWhile notSlash (ID @ (str ''/'') @ rest) = dropWhile notSlash ((str ''/'') @ rest)"
    by (simp add: dropWhile_append2)
  ultimately show ?L using p h(2) by (simp add: docsUrlForm_def notSlash_def str_def)
qed

lemma containsDocsUrl_iff_regexMatch: "containsDocsUrl s \<longleftrightarrow> regexMatch s \<noteq> None"
  by (simp add: regexMatch_None_iff)

text \<open>
  C3, as amended. A URL of the form \<open>scheme://docs.google.com/document/d/ID/rest\<close>, with
  either scheme and an identifier that is not empty and has no slash, yields exactly \<open>ID\<close>.
  The expression is not anchored and asks for no slash after the identifier: every string
  in which the document prefix occurs anywhere, followed by a character other than a
  slash, yields an identifier (not empty, without a slash); every other string, and every
  input that is not a string or is the empty string, is rejected with one of the two
  invalid-input messages.
\<close>

theorem extractDocId_amended:
  "((scheme = (str ''https'') \<or> scheme = (str ''http'')) \<and> ID \<noteq> [] \<and> (of_char CHR ''/'') \<notin> set ID \<longrightarrow>
      extractDocId (JStr (scheme @ docPath @ ID @ (str ''/'') @ rest)) = Inr ID) \<and>
   (containsDocsUrl s \<longrightarrow> (\<exists>g. extractDocId (JStr s) = Inr g \<and> g \<noteq> [] \<and> (of_char CHR ''/'') \<notin> set g)) \<and>
   (\<not> containsDocsUrl t \<longrightarrow> (\<exists>e. extractDocId (JStr t) = Inl e \<and> invalidInput e)) \<and>
   (\<not> isString v \<or> v = JStr [] \<longrightarrow> (\<exists>e. extractDocId v = Inl e \<and> invalidInput e))"
proof (intro conjI impI)
  assume h: "(scheme = (str ''https'') \<or> scheme = (str ''http'')) \<and> ID \<noteq> [] \<and> (of_char CHR ''/'') \<notin> set ID"
  let ?u = "scheme @ docPath @ ID @ (str ''/'') @ rest"
  have "containsDocsUrl ?u"
    unfolding containsDocsUrl_def using h
    by (intro exI [of _ "[]"] exI [of _ scheme] exI [of _ "hd ID"] exI [of _ "tl ID @ (str ''/'') @ rest"])
       (cases ID; auto)
  then have "trim ?u \<noteq> []" by (rule containsDocsUrl_not_blank)
  moreover have "regexMatch ?u = Some ID" using regexMatch_form [of scheme ID rest] h by blast
  ultimately show "extractDocId (JStr ?u) = Inr ID" by (simp add: extractDocId_def)
next
  assume c: "containsDocsUrl s"
  then obtain g where g: "regexMatch s = Some g" using regexMatch_None_iff [of s] by auto
  from c have "trim s \<noteq> []" by (rule containsDocsUrl_not_blank)
  with g regexMatch_Some [OF g]
  show "\<exists>g. extractDocId (JStr s) = Inr g \<and> g \<noteq> [] \<and> (of_char CHR ''/'') \<notin> set g"
    by (simp add: extractDocId_def)
next
  assume "\<not> containsDocsUrl t"
  then have "regexMatch t = None" by (simp add: regexMatch_None_iff)
  then show "\<exists>e. extractDocId (JStr t) = Inl e \<and> invalidInput e"
    by (simp add: extractDocId_def invalidInput_def Error_def)
next
  assume "\<not> isString v \<or> v = JStr []"
  then show "\<exists>e. extractDocId v = Inl e \<and> invalidInput e"
    by (cases v) (auto simp: extractDocId_def invalidInput_def Error_def trim_def)
qed

theorem extractDocId_amended_witness:
  "extractDocId (JStr (str ''https://docs.google.com/document/d/1ABC123XYZ/edit'')) = Inr (str ''1ABC123XYZ'') \<and>
   (\<exists>g. extractDocId (JStr (str ''see http://docs.google.com/document/d/q7'')) = Inr g \<and>
        g \<noteq> [] \<and> (of_char CHR ''/'') \<notin> set g) \<and>
   (\<exists>e. extractDocId (JStr (str ''https://example.com/document/d/1ABC123XYZ/edit'')) = Inl e \<and>
        invalidInput e) \<and>
   (\<exists>e. extractDocId (JNum 123) = Inl e \<and> invalidInput e)"
proof -
  have pos: "containsDocsUrl (str ''see http://docs.google.com/document/d/q7'')"
    unfolding containsDocsUrl_iff_regexMatch by code_simp
  have neg: "\<not> containsDocsUrl (str ''https://example.com/document/d/1ABC123XYZ/edit'')"
    unfolding containsDocsUrl_iff_regexMatch by code_simp
  have h1: "((str ''https'') = (str ''https'') \<or> (str ''https'') = (str ''http'')) \<and> (str ''1ABC123XYZ'') \<noteq> [] \<and>
      (of_char CHR ''/'') \<notin> set (str ''1ABC123XYZ'')"
    by (simp add: str_def)
  have h4: "\<not> isString (JNum 123) \<or> JNum 123 = JStr []"
    by simp
  have eq: "(str ''https'') @ docPath @ (str ''1ABC123XYZ'') @ (str ''/'') @ (str ''edit'') =
      (str ''https://docs.google.com/document/d/1ABC123XYZ/edit'')"
    by (simp add: docPath_def str_def)
  note T = extractDocId_amended [where scheme = "(str ''https'')" and ID = "(str ''1ABC123XYZ'')"
        and rest = "(str ''edit'')" and s = "(str ''see http://docs.google.com/document/d/q7'')"
        and t = "(str ''https://example.com/document/d/1ABC123XYZ/edit'')" and v = "JNum 123",
        unfolded eq]
  have c1: "extractDocId (JStr (str ''https://docs.google.com/document/d/1ABC123XYZ/edit'')) =
      Inr (str ''1ABC123XYZ'')"
    using T [THEN conjunct1] h1 by (rule mp)
  have c2: "\<exists>g. extractDocId (JStr (str ''see http://docs.google.com/document/d/q7'')) = Inr g \<and>
        g \<noteq> [] \<and> (of_char CHR ''/'') \<notin> set g"
    using T [THEN conjunct2, THEN conjunct1] pos by (rule mp)
  have c3: "\<exists>e. extractDocId (JStr (str ''https://example.com/document/d/1ABC123XYZ/edit'')) = Inl e \<and>
        invalidInput e"
    using T [THEN conjunct2, THEN conjunct2, THEN conjunct1] neg by (rule mp)
  have c4: "\<exists>e. extractDocId (JNum 123) = Inl e \<and> invalidInput e"
    using T [THEN conjunct2, THEN conjunct2, THEN conjunct2] h4 by (rule mp)
  show ?thesis
    by (rule conjI c1 c2 c3 c4)+
qed

text \<open>
  C3 as stated fails: a string that is not of the named form (no slash ends the identifier,
  or the document URL is only a part of a URL on another host) is not rejected.
\<close>

theorem extractDocId_form_counterexample:
  "\<not> docsUrlForm (str ''https://docs.google.com/document/d/ABC'') \<and>
   extractDocId (JStr (str ''https://docs.google.com/document/d/ABC'')) = Inr (str ''ABC'') \<and>
   \<not> docsUrlForm (str ''https://example.org/?u=http://docs.google.com/document/d/ABC/edit'') \<and>
   extractDocId (JStr (str ''https://example.org/?u=http://docs.google.com/document/d/ABC/edit'')) =
     Inr (str ''ABC'')"
  by code_simp

section \<open>Properties of the string operations\<close>

lemma startsWith_iff: "startsWith p s \<longleftrightarrow> (\<exists>r. s = p @ r)"
  by (induction p s rule: startsWith.induct) auto

lemma includesStr_iff_indexOf: "includesStr hay needle \<longleftrightarrow> indexOf hay needle \<noteq> None"
  by (induction hay) auto

lemma indexOf_Some_first:
  "indexOf hay needle = Some i \<Longrightarrow>
     i \<le> length hay \<and> startsWith needle (drop i hay) \<and>
     (\<forall>j<i. \<not> startsWith needle (drop j hay))"
proof (induction hay arbitrary: i)
  case Nil
  then show ?case by (auto split: if_splits)
next
  case (Cons c cs)
  show ?case
  proof (cases "startsWith needle (c # cs)")
    case True
    with Cons.prems show ?thesis by simp
  next
    case False
    with Cons.prems obtain i' where i': "indexOf cs needle = Some i'" "i = Suc i'"
      by auto
    from Cons.IH [OF i'(1)] have ih: "i' \<le> length cs" "startsWith needle (drop i' cs)"
      "\<forall>j<i'. \<not> startsWith needle (drop j cs)" by auto
    have "\<forall>j<Suc i'. \<not> startsWith needle (drop j (c # cs))"
    proof (intro allI impI)
      fix j assume "j < Suc i'"
      then show "\<not> startsWith needle (drop j (c # cs))"
        using False ih(3) by (cases j) auto
    qed
    with ih(1,2) i'(2) show ?thesis by simp
  qed
qed

lemma indexOf_first:
  assumes "startsWith needle (drop i hay)" "i \<le> length hay"
    and "\<forall>j<i. \<not> startsWith needle (drop j hay)"
  shows "indexOf hay needle = Some i"
  using assms
proof (induction hay arbitrary: i)
  case Nil
  then show ?case by (cases needle) auto
next
  case (Cons c cs)
  show ?case
  proof (cases i)
    case 0
    with Cons.prems(1) show ?thesis by simp
  next
    case (Suc i')
    with Cons.prems(3) have no: "\<not> startsWith needle (c # cs)" by force
    have "\<forall>j<i'. \<not> startsWith needle (drop j cs)"
    proof (intro allI impI)
      fix j assume "j < i'"
      then have "Suc j < i" using Suc by simp
      with Cons.prems(3) have "\<not> startsWith needle (drop (Suc j) (c # cs))" by blast
      then show "\<not> startsWith needle (drop j cs)" by simp
    qed
    with Cons.IH [of i'] Cons.prems(1,2) Suc have "indexOf cs needle = Some i'" by simp
    with no Suc show ?thesis by simp
  qed
qed

lemma indexOf_None_iff: "indexOf hay [c] = None \<longleftrightarrow> c \<notin> set hay"
  by (induction hay) auto

lemma indexOf_char_append:
  "c \<notin> set mid \<Longrightarrow> indexOf (mid @ c # post) [c] = Some (length mid)"
  by (induction mid) auto

lemma length_lowerUnit: "length (lowerUnit c) = (if c = 304 then 2 else 1)"
  by (simp add: lowerUnit_def)

lemma length_toLowerCase: "304 \<notin> set s \<Longrightarrow> length (toLowerCase s) = length s"
  by (induction s) (simp_all add: toLowerCase_def length_lowerUnit)

lemma toLowerCase_append: "toLowerCase (a @ b) = toLowerCase a @ toLowerCase b"
  by (simp add: toLowerCase_def)

lemma dropWhile_hd_id: "s \<noteq> [] \<Longrightarrow> \<not> P (hd s) \<Longrightarrow> dropWhile P s = s"
  by (cases s) auto

lemma trim_Nil: "trim [] = []"
  by (simp add: trim_def)

lemma trim_id:
  assumes "s = [] \<or> (\<not> isWhiteSpace (hd s) \<and> \<not> isWhiteSpace (last s))"
  shows "trim s = s"
proof (cases s)
  case Nil
  then show ?thesis by (simp add: trim_def)
next
  case (Cons c cs)
  with assms have h: "\<not> isWhiteSpace (hd s)" "\<not> isWhiteSpace (last s)" by auto
  from Cons h(1) have a: "dropWhile isWhiteSpace s = s" by simp
  from Cons have "rev s \<noteq> []" "hd (rev s) = last s" by (simp_all add: hd_rev)
  with h(2) have "dropWhile isWhiteSpace (rev s) = rev s" by (intro dropWhile_hd_id) simp_all
  with a show ?thesis by (simp add: trim_def)
qed

lemma trim_ends:
  assumes "trim s \<noteq> []"
  shows "\<not> isWhiteSpace (hd (trim s)) \<and> \<not> isWhiteSpace (last (trim s))"
proof -
  define d where "d = dropWhile isWhiteSpace s"
  define e where "e = dropWhile isWhiteSpace (rev d)"
  have t: "trim s = rev e" by (simp add: trim_def d_def e_def)
  with assms have e: "e \<noteq> []" by simp
  then have he: "\<not> isWhiteSpace (hd e)" unfolding e_def by (rule hd_dropWhile)
  from e have "rev d \<noteq> []" unfolding e_def by auto
  then have d: "d \<noteq> []" by simp
  then have hd: "\<not> isWhiteSpace (hd d)" unfolding d_def by (rule hd_dropWhile)
  have "rev d = takeWhile isWhiteSpace (rev d) @ e" by (simp add: e_def)
  with e have "last (rev d) = last e" by (metis last_appendR)
  with d have "last e = hd d" by (simp add: last_rev)
  with hd he e show ?thesis by (simp add: t hd_rev last_rev)
qed

lemma trim_trim: "trim (trim s) = trim s"
  using trim_ends [of s] by (intro trim_id) blast

lemma trim_not_blank: "trim s \<noteq> [] \<Longrightarrow> trim (trim s) \<noteq> []"
  by (simp add: trim_trim)

section \<open>First pass: the inline pattern\<close>

text \<open>
  Where the code does what the inline pattern says: for an element text in which no
  U+0130 stands before the end of the keyword's first occurrence, and for a keyword other
  than \<open>__proto__\<close>.
\<close>

lemma indexOf_occurrence:
  assumes "toLowerCase occ = needle" "304 \<notin> set pre"
    and "\<forall>j<length pre. \<not> startsWith needle (drop j (toLowerCase (pre @ occ @ rest)))"
  shows "indexOf (toLowerCase (pre @ occ @ rest)) needle = Some (length pre)"
proof -
  have "length (toLowerCase pre) = length pre"
    using assms(2) by (rule length_toLowerCase)
  then have "drop (length pre) (toLowerCase (pre @ occ @ rest)) = needle @ toLowerCase rest"
    using assms(1) by (simp add: toLowerCase_append)
  then have "startsWith needle (drop (length pre) (toLowerCase (pre @ occ @ rest)))"
    by (simp add: startsWith_iff)
  moreover have "length pre \<le> length (toLowerCase (pre @ occ @ rest))"
    using \<open>length (toLowerCase pre) = length pre\<close> by (simp add: toLowerCase_append)
  ultimately show ?thesis using assms(3) by (rule indexOf_first)
qed

lemma afterKeyword_occurrence:
  assumes "toLowerCase occ = needle" "304 \<notin> set occ"
  shows "slice (pre @ occ @ rest) (length pre + length needle) = rest"
proof -
  have "length needle = length occ"
    using assms length_toLowerCase [of occ] by simp
  then show ?thesis by (simp add: slice_def)
qed

lemma inlineKeyword_colon:
  assumes "raw = pre @ occ @ mid @ str '':'' @ post"
    and "toLowerCase occ = normalized kw"
    and "\<forall>j<length pre. \<not> startsWith (normalized kw) (drop j (toLowerCase raw))"
    and "of_char CHR '':'' \<notin> set mid"
    and "304 \<notin> set pre" "304 \<notin> set occ" "original kw \<noteq> protoKey"
  shows "inlineKeyword raw sd kw =
           (if trim post \<noteq> [] then AList.update (original kw) (trim post) sd else sd)"
proof -
  have c: "str '':'' = [of_char CHR '':'']" by (simp add: str_def)
  have idx: "indexOf (toLowerCase raw) (normalized kw) = Some (length pre)"
    using indexOf_occurrence [OF assms(2,5), of "mid @ str '':'' @ post"] assms(1,3) by simp
  then have inc: "includesStr (toLowerCase raw) (normalized kw)"
    by (simp add: includesStr_iff_indexOf)
  have after: "slice raw (length pre + length (normalized kw)) = mid @ str '':'' @ post"
    using afterKeyword_occurrence [OF assms(2,6)] assms(1) by simp
  have colon: "indexOf (mid @ str '':'' @ post) (str '':'') = Some (length mid)"
    using indexOf_char_append [OF assms(4), of post] by (simp add: c)
  have "slice (mid @ str '':'' @ post) (length mid + 1) = post"
    by (simp add: slice_def c)
  with idx inc after colon assms(7) show ?thesis
    by (simp add: inlineKeyword_def Let_def jsAssign_def)
qed

lemma inlineKeyword_no_colon:
  assumes "raw = pre @ occ @ rest"
    and "toLowerCase occ = normalized kw"
    and "\<forall>j<length pre. \<not> startsWith (normalized kw) (drop j (toLowerCase raw))"
    and "of_char CHR '':'' \<notin> set rest"
    and "304 \<notin> set pre" "304 \<notin> set occ"
  shows "inlineKeyword raw sd kw = sd"
proof -
  have c: "str '':'' = [of_char CHR '':'']" by (simp add: str_def)
  have idx: "indexOf (toLowerCase raw) (normalized kw) = Some (length pre)"
    using indexOf_occurrence [OF assms(2,5), of rest] assms(1,3) by simp
  have after: "slice raw (length pre + length (normalized kw)) = rest"
    using afterKeyword_occurrence [OF assms(2,6)] assms(1) by simp
  have "indexOf rest (str '':'') = None"
    using assms(4) by (simp add: indexOf_None_iff c)
  with idx after show ?thesis
    by (simp add: inlineKeyword_def Let_def)
qed


lemma inlineExample_eval:
  "extractFromDocument inlineExampleDoc (normalizeKeywords [JStr (str ''Customer Name'')]) =
     [(str ''Customer Name'', str ''John Doe'')]"
  by code_simp

text \<open>
  C1 does not hold of the code. The first pass finds the keyword in the lower-cased text
  and cuts the original text at that index. Lower-casing the letter U+0130 gives two code
  units, so behind that letter the index is one place too far. In the paragraph
  \<open>[U+0130]stanbul Name: Bob\<close> the keyword \<open>Name\<close> is found at index 10 of the lower-cased
  text, the original text is cut at 14, behind the colon, and nothing is stored where the
  claim has \<open>Bob\<close>; in \<open>[U+0130] Name: a: b\<close> the value stored is \<open>b\<close> where the claim
  has \<open>a: b\<close>. With a plain \<open>I\<close> the value is \<open>Bob\<close>. And the keyword \<open>__proto__\<close> is
  never stored: the assignment to that key creates no property.
\<close>

theorem inline_extraction_failure:
  "trim (304 # str ''stanbul Name: Bob'') = 304 # str ''stanbul Name: Bob'' \<and>
   toLowerCase (304 # str ''stanbul Name: Bob'') = 105 # 775 # str ''stanbul name: bob'' \<and>
   normalizeKeywords [JStr (str ''Name'')] = [\<lparr>original = str ''Name'', normalized = str ''name''\<rparr>] \<and>
   indexOf (toLowerCase (304 # str ''stanbul Name: Bob'')) (str ''name'') = Some 10 \<and>
   slice (304 # str ''stanbul Name: Bob'') (10 + length (str ''name'')) = str '' Bob'' \<and>
   extractFromDocument
     [Element (str ''html'')
        [Element (str ''head'') [],
         Element (str ''body'') [Element (str ''p'') [Text (304 # str ''stanbul Name: Bob'')]]]]
     (normalizeKeywords [JStr (str ''Name'')]) = [] \<and>
   extractFromDocument
     [Element (str ''html'')
        [Element (str ''head'') [],
         Element (str ''body'') [Element (str ''p'') [Text (304 # str '' Name: a: b'')]]]]
     (normalizeKeywords [JStr (str ''Name'')]) = [(str ''Name'', str ''b'')] \<and>
   extractFromDocument
     [Element (str ''html'')
        [Element (str ''head'') [],
         Element (str ''body'') [Element (str ''p'') [Text (str ''Istanbul Name: Bob'')]]]]
     (normalizeKeywords [JStr (str ''Name'')]) = [(str ''Name'', str ''Bob'')] \<and>
   extractFromDocument
     [Element (str ''html'')
        [Element (str ''head'') [],
         Element (str ''body'') [Element (str ''p'') [Text (str ''__proto__: x'')]]]]
     (normalizeKeywords [JStr (str ''__proto__'')]) = []"
  by code_simp

section \<open>Second pass: a label and its value\<close>

lemma secondPass_append:
  "secondPass kws (es @ es') st = secondPass kws es' (secondPass kws es st)"
  by (simp add: secondPass_def)

lemma secondPass_Cons:
  "secondPass kws (e # es) st = secondPass kws es (secondPassElem kws st e)"
  by (simp add: secondPass_def)

lemma secondPass_Nil: "secondPass kws [] st = st"
  by (simp add: secondPass_def)

lemma secondPassElem_blank:
  "trim (textContent e) = [] \<Longrightarrow> secondPassElem kws st e = st"
  by (simp add: secondPassElem_def)

lemma secondPassElem_repeat:
  "normalizeText (trim (textContent e)) = normalized pl \<Longrightarrow>
     secondPassElem kws (Some pl, sd) e = (Some pl, sd)"
  by (simp add: secondPassElem_def Let_def)

lemma secondPassElem_assign:
  assumes "trim (textContent e) \<noteq> []"
    and "normalizeText (trim (textContent e)) \<noteq> normalized pl"
  shows "secondPassElem kws (Some pl, sd) e =
           (if valueText e (trim (textContent e)) \<noteq> []
            then (None, jsAssign (original pl) (valueText e (trim (textContent e))) sd)
            else (Some pl, sd))"
  using assms by (simp add: secondPassElem_def Let_def)

lemma secondPassElem_value:
  assumes "trim (textContent e) \<noteq> []"
    and "normalizeText (trim (textContent e)) \<noteq> normalized pl"
    and "original pl \<noteq> protoKey"
  shows "secondPassElem kws (Some pl, sd) e =
           (if valueText e (trim (textContent e)) \<noteq> []
            then (None, AList.update (original pl) (valueText e (trim (textContent e))) sd)
            else (Some pl, sd))"
  using assms by (simp add: secondPassElem_assign jsAssign_def)

lemma secondPass_skip:
  assumes "\<forall>e\<in>set es. trim (textContent e) = [] \<or>
             normalizeText (trim (textContent e)) = normalized pl"
  shows "secondPass kws es (Some pl, sd) = (Some pl, sd)"
  using assms
proof (induction es)
  case Nil
  then show ?case by (simp add: secondPass_Nil)
next
  case (Cons e es)
  then have "secondPassElem kws (Some pl, sd) e = (Some pl, sd)"
    using secondPassElem_blank [of e kws "(Some pl, sd)"] secondPassElem_repeat [of e pl kws sd]
    by auto
  with Cons show ?case by (simp add: secondPass_Cons)
qed

lemma lower_ul: "toLowerCase (str ''ul'') = (str ''ul'')"
  by code_simp

lemma lower_table: "toLowerCase (str ''table'') = (str ''table'')"
  by code_simp

lemma lower_other:
  "t = (str ''p'') \<or> t = (str ''h1'') \<or> t = (str ''h2'') \<or> t = (str ''h3'') \<Longrightarrow>
     toLowerCase t \<noteq> (str ''ul'') \<and> toLowerCase t \<noteq> (str ''table'')"
  by (elim disjE; hypsubst; code_simp)

lemma valueText_ul:
  "tagName e = (str ''ul'') \<Longrightarrow>
     valueText e raw =
       join (str '' | '') (filter (\<lambda>x. x \<noteq> []) (map (\<lambda>li. trim (textContent li)) (findAll [(str ''li'')] e)))"
  by (simp only: valueText_def Let_def lower_ul nonEmptyTexts_def if_True refl)

lemma valueText_table:
  "tagName e = (str ''table'') \<Longrightarrow>
     valueText e raw =
       join (str '' | '')
         (filter (\<lambda>x. x \<noteq> []) (map (\<lambda>c. trim (textContent c)) (findAll [(str ''th''), (str ''td'')] e)))"
proof -
  assume t: "tagName e = (str ''table'')"
  have "(str ''table'') \<noteq> (str ''ul'')" by (simp add: str_def)
  then show ?thesis
    by (simp only: valueText_def Let_def t lower_table nonEmptyTexts_def if_True if_False refl)
qed

lemma valueText_other:
  assumes "tagName e = (str ''p'') \<or> tagName e = (str ''h1'') \<or> tagName e = (str ''h2'') \<or> tagName e = (str ''h3'')"
  shows "valueText e raw = raw"
  using lower_other [OF assms] by (simp only: valueText_def Let_def if_False)

lemma labelExample_eval:
  "extractFromDocument labelExampleDoc (normalizeKeywords [JStr (str ''Product title'')]) =
     [((str ''Product title''), (str ''Widget X''))]"
  by code_simp

text \<open>
  Where the code does what the label/value pattern says, for a pending keyword other
  than \<open>__proto__\<close>: the elements passed over, the value element, and what is stored.
\<close>

lemma secondPass_value:
  assumes "\<forall>s\<in>set skipped. trim (textContent s) = [] \<or>
        normalizeText (trim (textContent s)) = normalized pl"
    and "trim (textContent e) \<noteq> []" "normalizeText (trim (textContent e)) \<noteq> normalized pl"
    and "original pl \<noteq> protoKey"
  shows "secondPass kws (skipped @ e # rest) (Some pl, sd) =
        secondPass kws rest
          (if valueText e (trim (textContent e)) \<noteq> []
           then (None, AList.update (original pl) (valueText e (trim (textContent e))) sd)
           else (Some pl, sd))"
proof -
  have "secondPass kws skipped (Some pl, sd) = (Some pl, sd)"
    using assms(1) by (rule secondPass_skip)
  moreover have "secondPassElem kws (Some pl, sd) e =
      (if valueText e (trim (textContent e)) \<noteq> []
       then (None, AList.update (original pl) (valueText e (trim (textContent e))) sd)
       else (Some pl, sd))"
    using assms(2,3,4) by (rule secondPassElem_value)
  ultimately show ?thesis
    by (simp only: secondPass_append secondPass_Cons)
qed

text \<open>
  C2 does not hold of the code. For the keyword \<open>__proto__\<close> the label is detected, the
  next element is taken as its value and the slot is cleared, but the assignment to that
  key creates no property: the fragment \<^verbatim>\<open><h2>__proto__</h2><p>x</p>\<close> yields the
  empty mapping where the claim has the value \<open>x\<close> under the keyword. With the keyword
  \<open>Product title\<close> the fragment \<^verbatim>\<open><h2>Product title</h2><p>Widget X</p>\<close> yields the
  pair the claim names.
\<close>

theorem label_value_failure:
  "normalizeKeywords [JStr (str ''__proto__'')] =
     [\<lparr>original = str ''__proto__'', normalized = str ''__proto__''\<rparr>] \<and>
   detectLabel [\<lparr>original = str ''__proto__'', normalized = str ''__proto__''\<rparr>]
     (normalizeText (str ''__proto__'')) (str ''__proto__'') =
     Some \<lparr>original = str ''__proto__'', normalized = str ''__proto__''\<rparr> \<and>
   secondPassElem [\<lparr>original = str ''__proto__'', normalized = str ''__proto__''\<rparr>]
     (Some \<lparr>original = str ''__proto__'', normalized = str ''__proto__''\<rparr>, [])
     (Element (str ''p'') [Text (str ''x'')]) = (None, []) \<and>
   extractFromDocument
     [Element (str ''html'')
        [Element (str ''head'') [],
         Element (str ''body'')
           [Element (str ''h2'') [Text (str ''__proto__'')], Element (str ''p'') [Text (str ''x'')]]]]
     (normalizeKeywords [JStr (str ''__proto__'')]) = [] \<and>
   extractFromDocument labelExampleDoc (normalizeKeywords [JStr (str ''Product title'')]) =
     [(str ''Product title'', str ''Widget X'')]"
  by code_simp

text \<open>
  C8. With label \<open>pl\<close> pending, an element whose normalized text equals the label's
  normalized form leaves the state as it is: nothing is stored and the label stays
  pending. A whole run of such elements is passed over, and the element after the run is
  examined with the label still pending.
\<close>

theorem duplicate_heading_skipped:
  "(normalizeText (trim (textContent e)) = normalized pl \<longrightarrow>
      secondPassElem kws (Some pl, sd) e = (Some pl, sd)) \<and>
   ((\<forall>d\<in>set dups. normalizeText (trim (textContent d)) = normalized pl) \<longrightarrow>
      secondPass kws dups (Some pl, sd) = (Some pl, sd) \<and>
      secondPass kws (dups @ nxt # rest) (Some pl, sd) =
        secondPass kws rest (secondPassElem kws (Some pl, sd) nxt))"
proof (intro conjI impI)
  assume "normalizeText (trim (textContent e)) = normalized pl"
  then show "secondPassElem kws (Some pl, sd) e = (Some pl, sd)"
    by (rule secondPassElem_repeat)
next
  assume h: "\<forall>d\<in>set dups. normalizeText (trim (textContent d)) = normalized pl"
  then show a: "secondPass kws dups (Some pl, sd) = (Some pl, sd)"
    by (intro secondPass_skip) blast
  show "secondPass kws (dups @ nxt # rest) (Some pl, sd) =
        secondPass kws rest (secondPassElem kws (Some pl, sd) nxt)"
    by (simp only: secondPass_append secondPass_Cons a)
qed

theorem duplicate_heading_skipped_witness:
  "secondPassElem [\<lparr>original = (str ''Product title''), normalized = (str ''product title'')\<rparr>]
      (Some \<lparr>original = (str ''Product title''), normalized = (str ''product title'')\<rparr>, [])
      (Element (str ''h2'') [Text (str '' PRODUCT   Title '')]) =
     (Some \<lparr>original = (str ''Product title''), normalized = (str ''product title'')\<rparr>, []) \<and>
   secondPass [\<lparr>original = (str ''Product title''), normalized = (str ''product title'')\<rparr>]
      [Element (str ''h2'') [Text (str ''Product title'')], Element (str ''p'') [Text (str ''product Title'')]]
      (Some \<lparr>original = (str ''Product title''), normalized = (str ''product title'')\<rparr>, []) =
     (Some \<lparr>original = (str ''Product title''), normalized = (str ''product title'')\<rparr>, []) \<and>
   secondPass [\<lparr>original = (str ''Product title''), normalized = (str ''product title'')\<rparr>]
      [Element (str ''h2'') [Text (str ''Product title'')], Element (str ''p'') [Text (str ''product Title'')],
       Element (str ''p'') [Text (str ''Widget X'')]]
      (Some \<lparr>original = (str ''Product title''), normalized = (str ''product title'')\<rparr>, []) =
     (None, [((str ''Product title''), (str ''Widget X''))])"
proof -
  let ?kw = "\<lparr>original = (str ''Product title''), normalized = (str ''product title'')\<rparr>"
  let ?d0 = "Element (str ''h2'') [Text (str '' PRODUCT   Title '')]"
  let ?d1 = "Element (str ''h2'') [Text (str ''Product title'')]"
  let ?d2 = "Element (str ''p'') [Text (str ''product Title'')]"
  let ?v = "Element (str ''p'') [Text (str ''Widget X'')]"
  note T = duplicate_heading_skipped [where e = ?d0 and pl = ?kw and kws = "[?kw]" and sd = "[]"
      and dups = "[?d1, ?d2]" and nxt = ?v and rest = "[]"]
  have h1: "normalizeText (trim (textContent ?d0)) = normalized ?kw"
    by code_simp
  have h2: "\<forall>d\<in>set [?d1, ?d2]. normalizeText (trim (textContent d)) = normalized ?kw"
    by code_simp
  have eq: "[?d1, ?d2] @ ?v # [] = [?d1, ?d2, ?v]" by simp
  have r: "secondPass [?kw] [] (secondPassElem [?kw] (Some ?kw, []) ?v) =
      (None, [((str ''Product title''), (str ''Widget X''))])"
    by code_simp
  have c1: "secondPassElem [?kw] (Some ?kw, []) ?d0 = (Some ?kw, [])"
    using T [THEN conjunct1, THEN mp, OF h1] .
  have c2: "secondPass [?kw] [?d1, ?d2] (Some ?kw, []) = (Some ?kw, [])"
    using T [THEN conjunct2, THEN mp, OF h2, THEN conjunct1] .
  have c3: "secondPass [?kw] [?d1, ?d2, ?v] (Some ?kw, []) =
      (None, [((str ''Product title''), (str ''Widget X''))])"
    using T [THEN conjunct2, THEN mp, OF h2, THEN conjunct2] unfolding eq r .
  show ?thesis
    by (rule conjI c1 c2 c3)+
qed

text \<open>
  C10, as amended. With label \<open>A\<close> pending, an element with non-empty trimmed text whose
  normalized text is the normalized form of another keyword \<open>B\<close>, different from \<open>A\<close>'s, is
  never examined as a label: \<open>B\<close> does not become pending there. Leaving aside the keyword
  \<open>__proto__\<close>: the element is consumed as \<open>A\<close>'s value when the value derived from it is
  not empty, which is always so for \<open>p\<close>, \<open>h1\<close>, \<open>h2\<close> and \<open>h3\<close>, whose value is the
  trimmed text; when the derived value is empty, \<open>A\<close> stays pending and nothing is stored.
\<close>

theorem pending_label_consumes_keyword_heading:
  "trim (textContent e) \<noteq> [] \<and> normalizeText (trim (textContent e)) = normalized B \<and>
   normalized B \<noteq> normalized A \<longrightarrow>
     fst (secondPassElem kws (Some A, sd) e) \<noteq> Some B \<and>
     (original A \<noteq> protoKey \<longrightarrow>
        secondPassElem kws (Some A, sd) e =
          (if valueText e (trim (textContent e)) \<noteq> []
           then (None, AList.update (original A) (valueText e (trim (textContent e))) sd)
           else (Some A, sd)) \<and>
        (tagName e = str ''p'' \<or> tagName e = str ''h1'' \<or> tagName e = str ''h2'' \<or>
         tagName e = str ''h3'' \<longrightarrow>
           secondPassElem kws (Some A, sd) e =
             (None, AList.update (original A) (trim (textContent e)) sd)))"
proof (intro impI conjI)
  assume h: "trim (textContent e) \<noteq> [] \<and> normalizeText (trim (textContent e)) = normalized B \<and>
   normalized B \<noteq> normalized A"
  then have ne: "A \<noteq> B" by auto
  from h have "secondPassElem kws (Some A, sd) e =
       (if valueText e (trim (textContent e)) \<noteq> []
        then (None, jsAssign (original A) (valueText e (trim (textContent e))) sd)
        else (Some A, sd))"
    by (intro secondPassElem_assign) auto
  with ne show "fst (secondPassElem kws (Some A, sd) e) \<noteq> Some B"
    by (simp split: if_splits)
next
  assume h: "trim (textContent e) \<noteq> [] \<and> normalizeText (trim (textContent e)) = normalized B \<and>
   normalized B \<noteq> normalized A"
    and p: "original A \<noteq> protoKey"
  from h p show step: "secondPassElem kws (Some A, sd) e =
       (if valueText e (trim (textContent e)) \<noteq> []
        then (None, AList.update (original A) (valueText e (trim (textContent e))) sd)
        else (Some A, sd))"
    by (intro secondPassElem_value) auto
  assume t: "tagName e = str ''p'' \<or> tagName e = str ''h1'' \<or> tagName e = str ''h2'' \<or>
         tagName e = str ''h3''"
  from step h valueText_other [OF t, of "trim (textContent e)"]
  show "secondPassElem kws (Some A, sd) e =
          (None, AList.update (original A) (trim (textContent e)) sd)"
    by simp
qed

theorem pending_label_consumes_keyword_heading_witness:
  "secondPassElem
      [\<lparr>original = (str ''Product title''), normalized = (str ''product title'')\<rparr>,
       \<lparr>original = (str ''Price''), normalized = (str ''price'')\<rparr>]
      (Some \<lparr>original = (str ''Product title''), normalized = (str ''product title'')\<rparr>, [])
      (Element (str ''h2'') [Text (str ''Price'')]) =
     (None, [((str ''Product title''), (str ''Price''))]) \<and>
   fst (secondPassElem
      [\<lparr>original = (str ''Product title''), normalized = (str ''product title'')\<rparr>,
       \<lparr>original = (str ''Price''), normalized = (str ''price'')\<rparr>]
      (Some \<lparr>original = (str ''Product title''), normalized = (str ''product title'')\<rparr>, [])
      (Element (str ''h2'') [Text (str ''Price'')])) \<noteq> Some \<lparr>original = (str ''Price''), normalized = (str ''price'')\<rparr> \<and>
   extractFromDocument
      [Element (str ''h2'') [Text (str ''Product title'')], Element (str ''h2'') [Text (str ''Price'')],
       Element (str ''p'') [Text (str ''Widget X'')]]
      (normalizeKeywords [JStr (str ''Product title''), JStr (str ''Price'')]) =
     [((str ''Product title''), (str ''Price''))]"
proof -
  let ?A = "\<lparr>original = (str ''Product title''), normalized = (str ''product title'')\<rparr>"
  let ?B = "\<lparr>original = (str ''Price''), normalized = (str ''price'')\<rparr>"
  let ?e = "Element (str ''h2'') [Text (str ''Price'')]"
  note T = pending_label_consumes_keyword_heading [where e = ?e and A = ?A and B = ?B
      and kws = "[?A, ?B]" and sd = "[]"]
  have h: "trim (textContent ?e) \<noteq> [] \<and> normalizeText (trim (textContent ?e)) = normalized ?B \<and>
      normalized ?B \<noteq> normalized ?A"
    by code_simp
  have t: "tagName ?e = str ''p'' \<or> tagName ?e = str ''h1'' \<or> tagName ?e = str ''h2'' \<or>
      tagName ?e = str ''h3''"
    by simp
  have p: "original ?A \<noteq> protoKey"
    by code_simp
  have r: "(None, AList.update (original ?A) (trim (textContent ?e)) []) =
      (None :: keyword option, [((str ''Product title''), (str ''Price''))])"
    by code_simp
  have c1: "secondPassElem [?A, ?B] (Some ?A, []) ?e = (None, [((str ''Product title''), (str ''Price''))])"
    using T [THEN mp, OF h, THEN conjunct2, THEN mp, OF p, THEN conjunct2, THEN mp, OF t]
    unfolding r .
  have c2: "fst (secondPassElem [?A, ?B] (Some ?A, []) ?e) \<noteq> Some ?B"
    using T [THEN mp, OF h, THEN conjunct1] .
  have c3: "extractFromDocument
      [Element (str ''h2'') [Text (str ''Product title'')], Element (str ''h2'') [Text (str ''Price'')],
       Element (str ''p'') [Text (str ''Widget X'')]]
      (normalizeKeywords [JStr (str ''Product title''), JStr (str ''Price'')]) =
     [((str ''Product title''), (str ''Price''))]"
    by code_simp
  show ?thesis
    by (rule conjI c1 c2 c3)+
qed

text \<open>
  C10 as stated fails for a value element whose derived value is empty: a list without
  items whose text is the keyword \<open>Price\<close> is not consumed as the value of the pending
  \<open>Product title\<close>, which stays pending and takes the paragraph after it.
\<close>

theorem pending_label_empty_value_counterexample:
  "trim (textContent (Element (str ''ul'') [Text (str ''Price'')])) \<noteq> [] \<and>
   normalizeText (trim (textContent (Element (str ''ul'') [Text (str ''Price'')]))) =
     normalized \<lparr>original = (str ''Price''), normalized = (str ''price'')\<rparr> \<and>
   secondPassElem
      [\<lparr>original = (str ''Product title''), normalized = (str ''product title'')\<rparr>,
       \<lparr>original = (str ''Price''), normalized = (str ''price'')\<rparr>]
      (Some \<lparr>original = (str ''Product title''), normalized = (str ''product title'')\<rparr>, [])
      (Element (str ''ul'') [Text (str ''Price'')]) =
     (Some \<lparr>original = (str ''Product title''), normalized = (str ''product title'')\<rparr>, []) \<and>
   extractFromDocument
      [Element (str ''h2'') [Text (str ''Product title'')], Element (str ''ul'') [Text (str ''Price'')],
       Element (str ''p'') [Text (str ''Widget X'')]]
      (normalizeKeywords [JStr (str ''Product title''), JStr (str ''Price'')]) =
     [((str ''Product title''), (str ''Widget X''))]"
  by code_simp

section \<open>The result object across both passes\<close>

lemma map_of_update: "map_of (AList.update k v al) = (map_of al)(k \<mapsto> v)"
  by (rule update_conv')

lemma map_add_upd_empty: "m(k \<mapsto> v) = m ++ [k \<mapsto> v]"
  by simp

lemma inlineKeyword_cases:
  "inlineKeyword raw sd kw = sd \<and> inlineKeyword raw [] kw = [] \<or>
   (\<exists>v. v \<noteq> [] \<and> trim v = v \<and> inlineKeyword raw sd kw = AList.update (original kw) v sd \<and>
        inlineKeyword raw [] kw = [(original kw, v)])"
proof -
  have "trim (trim x) = trim x" for x by (rule trim_trim)
  then show ?thesis
    by (auto simp: inlineKeyword_def jsAssign_def Let_def split: option.splits)
qed

lemma inlineKeyword_map:
  "map_of (inlineKeyword raw sd kw) = map_of sd ++ map_of (inlineKeyword raw [] kw)"
  using inlineKeyword_cases [of raw sd kw] by (auto simp: map_of_update)

lemma foldl_map_add:
  assumes "\<And>a x. map_of (f a x) = map_of a ++ map_of (f [] x)"
  shows "map_of (foldl f a xs) = map_of a ++ map_of (foldl f [] xs)"
proof (induction xs arbitrary: a)
  case Nil
  then show ?case by simp
next
  case (Cons x xs)
  have "map_of (foldl f (f a x) xs) = map_of (f a x) ++ map_of (foldl f [] xs)"
    by (rule Cons.IH)
  also have "\<dots> = map_of a ++ (map_of (f [] x) ++ map_of (foldl f [] xs))"
    by (simp only: assms [of a x] map_add_assoc)
  also have "map_of (f [] x) ++ map_of (foldl f [] xs) = map_of (foldl f (f [] x) xs)"
    by (rule Cons.IH [symmetric])
  finally show ?case by simp
qed

lemma firstPassElem_map:
  "map_of (firstPassElem kws sd e) = map_of sd ++ map_of (firstPassElem kws [] e)"
proof (cases "trim (textContent e) = []")
  case True
  then show ?thesis by (simp add: firstPassElem_def)
next
  case False
  have "map_of (foldl (inlineKeyword (trim (textContent e))) sd kws) =
      map_of sd ++ map_of (foldl (inlineKeyword (trim (textContent e))) [] kws)"
    by (rule foldl_map_add) (rule inlineKeyword_map)
  with False show ?thesis by (simp add: firstPassElem_def)
qed

lemma firstPass_map:
  "map_of (firstPass kws es sd) = map_of sd ++ map_of (firstPass kws es [])"
  unfolding firstPass_def by (rule foldl_map_add) (rule firstPassElem_map)

lemma firstPass_append:
  "firstPass kws (es @ es') sd = firstPass kws es' (firstPass kws es sd)"
  by (simp add: firstPass_def)

lemma firstPass_Cons:
  "firstPass kws (e # es) sd = firstPass kws es (firstPassElem kws sd e)"
  by (simp add: firstPass_def)

lemma firstPass_silent:
  assumes "\<forall>e\<in>set es. map_of (firstPassElem kws [] e) k = None"
  shows "map_of (firstPass kws es []) k = None"
  using assms
proof (induction es)
  case Nil
  then show ?case by (simp add: firstPass_def)
next
  case (Cons e es)
  have "map_of (firstPass kws (e # es) []) =
      map_of (firstPassElem kws [] e) ++ map_of (firstPass kws es [])"
    by (simp only: firstPass_Cons firstPass_map [of kws es "firstPassElem kws [] e"])
  with Cons show ?case by (simp add: map_add_def)
qed

lemma firstPass_last_wins:
  assumes "map_of (firstPassElem kws [] e) k = Some v"
    and "\<forall>e'\<in>set post. map_of (firstPassElem kws [] e') k = None"
  shows "map_of (firstPass kws (pre @ e # post) sd) k = Some v"
proof -
  let ?before = "firstPass kws pre sd"
  have "firstPass kws (pre @ e # post) sd = firstPass kws post (firstPassElem kws ?before e)"
    by (simp only: firstPass_append firstPass_Cons)
  then have "map_of (firstPass kws (pre @ e # post) sd) =
      (map_of ?before ++ map_of (firstPassElem kws [] e)) ++ map_of (firstPass kws post [])"
    by (simp only: firstPass_map [of kws post "firstPassElem kws ?before e"]
        firstPassElem_map [of kws ?before e])
  with assms(1) firstPass_silent [OF assms(2)] show ?thesis
    by (simp add: map_add_def)
qed

lemma secondPassElem_fst:
  "fst (secondPassElem kws (pl, sd) e) = fst (secondPassElem kws (pl, []) e)"
  by (simp add: secondPassElem_def Let_def split: option.splits)

lemma secondPassElem_map:
  "map_of (snd (secondPassElem kws (pl, sd) e)) =
     map_of sd ++ map_of (snd (secondPassElem kws (pl, []) e))"
  by (simp add: secondPassElem_def jsAssign_def Let_def map_of_update split: option.splits)

lemma secondPass_fst_map:
  "fst (secondPass kws es (pl, sd)) = fst (secondPass kws es (pl, [])) \<and>
   map_of (snd (secondPass kws es (pl, sd))) =
     map_of sd ++ map_of (snd (secondPass kws es (pl, [])))"
proof (induction es arbitrary: pl sd)
  case Nil
  then show ?case by (simp add: secondPass_Nil)
next
  case (Cons e es)
  obtain pl' sd' where a: "secondPassElem kws (pl, sd) e = (pl', sd')" by (cases "secondPassElem kws (pl, sd) e")
  obtain pl0 sd0 where b: "secondPassElem kws (pl, []) e = (pl0, sd0)" by (cases "secondPassElem kws (pl, []) e")
  from a b secondPassElem_fst [of kws pl sd e] have pl: "pl0 = pl'" by simp
  from a b secondPassElem_map [of kws pl sd e] have m: "map_of sd' = map_of sd ++ map_of sd0" by simp
  have f: "fst (secondPass kws es (pl', sd')) = fst (secondPass kws es (pl', sd0))"
    using Cons.IH [of pl' sd'] Cons.IH [of pl' sd0] by simp
  have "map_of (snd (secondPass kws es (pl', sd'))) =
      map_of sd' ++ map_of (snd (secondPass kws es (pl', [])))"
    using Cons.IH [of pl' sd'] by simp
  also have "\<dots> = map_of sd ++ (map_of sd0 ++ map_of (snd (secondPass kws es (pl', []))))"
    by (simp only: m map_add_assoc)
  also have "map_of sd0 ++ map_of (snd (secondPass kws es (pl', []))) =
      map_of (snd (secondPass kws es (pl', sd0)))"
    using Cons.IH [of pl' sd0] by simp
  finally show ?case using f a b pl by (simp add: secondPass_Cons)
qed

lemma extractFromDocument_map:
  "map_of (extractFromDocument doc kws) =
     map_of (firstPass kws (selectAll selector doc) []) ++
     map_of (snd (secondPass kws (selectAll selector doc) (None, [])))"
  using secondPass_fst_map [of kws "selectAll selector doc" None
      "firstPass kws (selectAll selector doc) []"]
  by (simp add: extractFromDocument_def Let_def)

text \<open>
  C7. Within the first pass the last element that yields a value for a key decides it:
  if \<open>e1\<close> and, later, \<open>e2\<close> both yield a value for \<open>k\<close> and no element after \<open>e2\<close> does,
  the first pass leaves \<open>e2\<close>'s value under \<open>k\<close>. The result of the extraction is the map of
  the first pass overwritten by the map the second pass builds: a value the second pass
  yields for \<open>k\<close> is the final one, whatever the first pass stored.
\<close>

theorem last_write_wins:
  "(map_of (firstPassElem kws [] e1) k = Some v1 \<and> map_of (firstPassElem kws [] e2) k = Some v2 \<and>
    (\<forall>e\<in>set post. map_of (firstPassElem kws [] e) k = None) \<longrightarrow>
      map_of (firstPass kws (pre @ e1 # mid @ e2 # post) sd) k = Some v2) \<and>
   map_of (extractFromDocument doc kws) =
     map_of (firstPass kws (selectAll selector doc) []) ++
     map_of (snd (secondPass kws (selectAll selector doc) (None, []))) \<and>
   (map_of (snd (secondPass kws (selectAll selector doc) (None, []))) k = Some v \<longrightarrow>
      map_of (extractFromDocument doc kws) k = Some v)"
proof (intro conjI impI)
  assume h: "map_of (firstPassElem kws [] e1) k = Some v1 \<and>
    map_of (firstPassElem kws [] e2) k = Some v2 \<and>
    (\<forall>e\<in>set post. map_of (firstPassElem kws [] e) k = None)"
  have "pre @ e1 # mid @ e2 # post = (pre @ e1 # mid) @ e2 # post" by simp
  moreover from h have "map_of (firstPass kws ((pre @ e1 # mid) @ e2 # post) sd) k = Some v2"
    by (intro firstPass_last_wins) blast+
  ultimately show "map_of (firstPass kws (pre @ e1 # mid @ e2 # post) sd) k = Some v2"
    by simp
next
  show "map_of (extractFromDocument doc kws) =
     map_of (firstPass kws (selectAll selector doc) []) ++
     map_of (snd (secondPass kws (selectAll selector doc) (None, [])))"
    by (rule extractFromDocument_map)
next
  assume "map_of (snd (secondPass kws (selectAll selector doc) (None, []))) k = Some v"
  then show "map_of (extractFromDocument doc kws) k = Some v"
    by (simp add: extractFromDocument_map map_add_def)
qed

theorem last_write_wins_witness:
  "map_of (firstPass [\<lparr>original = (str ''Name''), normalized = (str ''name'')\<rparr>]
      [Element (str ''p'') [Text (str ''Name: Alice'')], Element (str ''p'') [Text (str ''between'')],
       Element (str ''p'') [Text (str ''Name: Bob'')], Element (str ''p'') [Text (str ''after'')]] []) (str ''Name'') =
     Some (str ''Bob'') \<and>
   map_of (firstPass [\<lparr>original = (str ''Total''), normalized = (str ''total'')\<rparr>]
      (selectAll selector
         [Element (str ''p'') [Text (str ''Total: 5'')], Element (str ''h2'') [Text (str ''Total'')],
          Element (str ''p'') [Text (str ''7'')]]) []) (str ''Total'') = Some (str ''5'') \<and>
   map_of (extractFromDocument
      [Element (str ''p'') [Text (str ''Total: 5'')], Element (str ''h2'') [Text (str ''Total'')],
       Element (str ''p'') [Text (str ''7'')]]
      [\<lparr>original = (str ''Total''), normalized = (str ''total'')\<rparr>]) (str ''Total'') = Some (str ''7'')"
proof -
  let ?name = "\<lparr>original = (str ''Name''), normalized = (str ''name'')\<rparr>"
  let ?total = "\<lparr>original = (str ''Total''), normalized = (str ''total'')\<rparr>"
  let ?e1 = "Element (str ''p'') [Text (str ''Name: Alice'')]"
  let ?m = "Element (str ''p'') [Text (str ''between'')]"
  let ?e2 = "Element (str ''p'') [Text (str ''Name: Bob'')]"
  let ?p = "Element (str ''p'') [Text (str ''after'')]"
  let ?doc = "[Element (str ''p'') [Text (str ''Total: 5'')], Element (str ''h2'') [Text (str ''Total'')],
       Element (str ''p'') [Text (str ''7'')]]"
  note T1 = last_write_wins [where kws = "[?name]" and ?e1.0 = ?e1 and ?e2.0 = ?e2 and k = "(str ''Name'')"
      and ?v1.0 = "(str ''Alice'')" and ?v2.0 = "(str ''Bob'')" and post = "[?p]" and pre = "[]"
      and mid = "[?m]" and sd = "[]"]
  note T2 = last_write_wins [where kws = "[?total]" and doc = ?doc and k = "(str ''Total'')"
      and v = "(str ''7'')"]
  have h1: "map_of (firstPassElem [?name] [] ?e1) (str ''Name'') = Some (str ''Alice'') \<and>
      map_of (firstPassElem [?name] [] ?e2) (str ''Name'') = Some (str ''Bob'') \<and>
      (\<forall>e\<in>set [?p]. map_of (firstPassElem [?name] [] e) (str ''Name'') = None)"
    by code_simp
  have h2: "map_of (snd (secondPass [?total] (selectAll selector ?doc) (None, []))) (str ''Total'') =
      Some (str ''7'')"
    by code_simp
  have eq: "[] @ ?e1 # [?m] @ ?e2 # [?p] = [?e1, ?m, ?e2, ?p]" by simp
  have c1: "map_of (firstPass [?name] [?e1, ?m, ?e2, ?p] []) (str ''Name'') = Some (str ''Bob'')"
    using T1 [THEN conjunct1, THEN mp, OF h1] unfolding eq .
  have c2: "map_of (firstPass [?total] (selectAll selector ?doc) []) (str ''Total'') = Some (str ''5'')"
    by code_simp
  have c3: "map_of (extractFromDocument ?doc [?total]) (str ''Total'') = Some (str ''7'')"
    using T2 [THEN conjunct2, THEN conjunct2, THEN mp, OF h2] .
  show ?thesis
    by (rule conjI c1 c2 c3)+
qed

section \<open>Well-formedness of the result\<close>






lemma join_Nil_iff: "join sep xs \<noteq> [] \<Longrightarrow> xs \<noteq> []"
  by auto





















section \<open>The endpoint's status codes\<close>

lemma property_body:
  "property (if truthy reqBody then reqBody else JObj []) name = property reqBody name"
  by (cases reqBody) (simp_all add: property_def)

lemma parseDoc_unfold:
  "parseDoc env reqBody =
     (if \<not> truthy (property reqBody (str ''url'')) \<or> \<not> isString (property reqBody (str ''url''))
      then (400, ErrorBody urlRequiredMsg)
      else if truthy (property reqBody (str ''keywords'')) \<and> \<not> isArray (property reqBody (str ''keywords''))
      then (400, ErrorBody keywordsArrayMsg)
      else
        (case processGoogleDoc env (property reqBody (str ''url''))
                (if truthy (property reqBody (str ''keywords'')) then property reqBody (str ''keywords'')
                 else JArr []) of
           Inr (rawHtml, structuredData) \<Rightarrow> (200, ResultBody rawHtml structuredData)
         | Inl err \<Rightarrow> (statusFor (errorMessage err), ErrorBody (errorMessage err))))"
  unfolding parseDoc_def Let_def property_body ..




text \<open>
  C6 does not hold of the code. A \<open>url\<close> that is a non-empty string of white space passes
  the endpoint's own check; \<open>extractDocId\<close> rejects it with its first invalid-input message,
  which the handler's tests do not look for, so the status is 500, in every environment.
\<close>

theorem blank_url_status:
  "s \<noteq> [] \<and> trim s = [] \<longrightarrow>
     (\<exists>e. extractDocId (JStr s) = Inl e \<and> invalidInput e) \<and>
     parseDoc env (JObj [((str ''url''), JStr s)]) =
       (500, ErrorBody (str ''Invalid URL: URL must be a non-empty string.''))"
proof
  assume h: "s \<noteq> [] \<and> trim s = []"
  let ?e = "Error (str ''Invalid URL: URL must be a non-empty string.'')"
  have x: "extractDocId (JStr s) = Inl ?e"
    using h by (simp add: extractDocId_def)
  have inv: "invalidInput ?e"
    by (simp add: invalidInput_def Error_def)
  have d: "downloadDoc env (JStr s) = Inl ?e"
    by (simp add: downloadDoc_def x)
  have p: "processGoogleDoc env (JStr s) (JArr []) = Inl ?e"
    by (simp add: processGoogleDoc_def d)
  have u: "property (JObj [((str ''url''), JStr s)]) (str ''url'') = JStr s"
    by (simp add: property_def)
  have k: "property (JObj [((str ''url''), JStr s)]) (str ''keywords'') = JUndefined"
    by (simp add: property_def str_def)
  have m: "errorMessage ?e = (str ''Invalid URL: URL must be a non-empty string.'')"
    by code_simp
  have st: "statusFor (str ''Invalid URL: URL must be a non-empty string.'') = 500"
    by code_simp
  have "parseDoc env (JObj [((str ''url''), JStr s)]) =
       (500, ErrorBody (str ''Invalid URL: URL must be a non-empty string.''))"
    using h by (simp add: parseDoc_unfold u k p m st)
  with x inv show "(\<exists>e. extractDocId (JStr s) = Inl e \<and> invalidInput e) \<and>
     parseDoc env (JObj [((str ''url''), JStr s)]) =
       (500, ErrorBody (str ''Invalid URL: URL must be a non-empty string.''))"
    by blast
qed

theorem blank_url_status_witness:
  "(\<exists>e. extractDocId (JStr (str '' '')) = Inl e \<and> invalidInput e) \<and>
   parseDoc publicDocEnv (JObj [((str ''url''), JStr (str '' ''))]) =
     (500, ErrorBody (str ''Invalid URL: URL must be a non-empty string.''))"
proof -
  have h: "(str '' '') \<noteq> [] \<and> trim (str '' '') = []"
    by code_simp
  show ?thesis
    using blank_url_status [where s = "(str '' '')" and env = publicDocEnv, THEN mp, OF h] .
qed

section \<open>The outcomes of \<open>downloadDoc\<close>\<close>

lemma includesStr_hd: "includesStr hay (c # n) \<Longrightarrow> c \<in> set hay"
  by (induction hay) auto

lemma decimal_digits: "c \<in> set (decimal n) \<Longrightarrow> 48 \<le> c \<and> c \<le> 57"
proof (induction n rule: decimal.induct)
  case (1 n)
  show ?case
  proof (cases "n < 10")
    case True
    with 1(2) show ?thesis by (subst (asm) decimal.simps) simp
  next
    case False
    from 1(2) False have "c \<in> set (decimal (n div 10)) \<or> c = 48 + n mod 10"
      by (subst (asm) decimal.simps) auto
    then show ?thesis
    proof
      assume "c \<in> set (decimal (n div 10))"
      with 1(1) False show ?thesis by blast
    next
      assume "c = 48 + n mod 10"
      moreover have "n mod 10 < 10" by simp
      ultimately show ?thesis by linarith
    qed
  qed
qed

lemma toLowerCase_digits:
  "\<forall>c\<in>set s. 48 \<le> c \<and> c \<le> 57 \<Longrightarrow> toLowerCase s = s"
  by (induction s) (auto simp: toLowerCase_def lowerUnit_def)

lemma decimal_no_u: "of_char CHR ''u'' \<notin> set (toLowerCase (decimal n))"
proof -
  have "toLowerCase (decimal n) = decimal n"
    by (rule toLowerCase_digits) (blast dest: decimal_digits)
  moreover have "of_char CHR ''u'' \<notin> set (decimal n)"
    using decimal_digits [of "of_char CHR ''u''" n] by auto
  ultimately show ?thesis by simp
qed

lemma lower_request_failed:
  "toLowerCase (str ''Request failed with status code '') = (str ''request failed with status code '')"
  by code_simp

lemma request_failed_not_unauthorized:
  "\<not> includesStr (toLowerCase ((str ''Request failed with status code '') @ decimal n))
       (str ''unauthorized access'')"
proof -
  have u: "str ''unauthorized access'' = of_char CHR ''u'' # str ''nauthorized access''"
    by (simp add: str_def)
  have d: "\<not> includesStr (toLowerCase (decimal n)) (str ''unauthorized access'')"
    unfolding u using includesStr_hd decimal_no_u by blast
  have "toLowerCase ((str ''Request failed with status code '') @ decimal n) =
      (str ''request failed with status code '') @ toLowerCase (decimal n)"
    by (simp only: toLowerCase_append lower_request_failed)
  moreover have "\<not> includesStr ((str ''request failed with status code '') @ D) (str ''unauthorized access'')"
    if "\<not> includesStr D (str ''unauthorized access'')" for D
    using that by (simp add: str_def)
  ultimately show ?thesis using d by simp
qed

lemma downloadDoc_base:
  assumes "extractDocId url = Inr docId" "mkdtemp env = Inr dir"
  shows "downloadDoc env url =
           (case tryDownload env (buildExportUrl docId) (pathJoin env dir (docId @ (str ''.docx''))) of
              Inl err \<Rightarrow> Inl (catchDownload err)
            | Inr p \<Rightarrow> Inr p)"
  using assms by (simp add: downloadDoc_def)

lemma unexpected_not_unauthorized:
  "\<not> includesStr (toLowerCase unexpectedMsg) (str ''unauthorized access'') \<and> unexpectedMsg \<noteq> []"
  by code_simp

lemma catchDownload_Error:
  "catchDownload (Error msg) =
     (if includesStr (toLowerCase msg) (str ''unauthorized access'') then Error msg
      else Error (failedPrefix @ msg))"
proof -
  have "\<not> includesStr [] (str ''unauthorized access'')" by (simp add: str_def)
  then have "msg = [] \<Longrightarrow> \<not> includesStr (toLowerCase msg) (str ''unauthorized access'')"
    by (simp add: toLowerCase_def)
  then show ?thesis
    by (auto simp: catchDownload_def Error_def)
qed

lemma catchDownload_unexpected:
  "catchDownload (Error unexpectedMsg) = Error (failedPrefix @ unexpectedMsg)"
  using unexpected_not_unauthorized by (simp add: catchDownload_Error)

lemma catchDownload_rejected:
  assumes "st \<noteq> 404"
  shows "catchDownload \<lparr>message = (str ''Request failed with status code '') @ decimal st,
           response_status = Some st\<rparr> =
         Error (failedPrefix @ (str ''Request failed with status code '') @ decimal st)"
  using assms request_failed_not_unauthorized [of st]
  by (simp add: catchDownload_def Error_def)

lemma catchDownload_404:
  "catchDownload \<lparr>message = m, response_status = Some 404\<rparr> = Error notFoundMsg"
  by (simp add: catchDownload_def)

lemma validateStatus_cases:
  "validateStatus st \<Longrightarrow> st \<noteq> 401 \<and> st \<noteq> 403 \<and> st \<noteq> 404"
  by (auto simp: validateStatus_def)

lemma tryDownload_error_cases:
  assumes "tryDownload env u p = Inl c"
  shows "response_status c = None \<or>
     (\<exists>st. c = \<lparr>message = (str ''Request failed with status code '') @ decimal st,
                  response_status = Some st\<rparr>)"
proof (cases "fetch env u")
  case (NetworkFailure m)
  with assms show ?thesis by (auto simp: tryDownload_def axiosGet_def)
next
  case (Answered r)
  show ?thesis
  proof (cases "validateStatus (status r)")
    case False
    with Answered assms show ?thesis by (auto simp: tryDownload_def axiosGet_def)
  next
    case True
    with Answered assms show ?thesis
      by (auto simp: tryDownload_def axiosGet_def Error_def split: if_splits option.splits)
  qed
qed

lemma download_failure_shapes:
  assumes "downloadDoc env url = Inl err"
  shows "invalidInput err \<or> mkdtemp env = Inl (message err) \<or> err = Error notFoundMsg \<or>
     (\<exists>m. err = Error (failedPrefix @ m)) \<or>
     (\<exists>m. err = Error m \<and> includesStr (toLowerCase m) (str ''unauthorized access''))"
proof (cases "extractDocId url")
  case (Inl e)
  with assms have "err = e" by (simp add: downloadDoc_def)
  moreover from Inl have "invalidInput e"
    by (auto simp: extractDocId_def invalidInput_def Error_def split: jsval.splits if_splits option.splits)
  ultimately show ?thesis by simp
next
  case (Inr docId)
  show ?thesis
  proof (cases "mkdtemp env")
    case (Inl msg)
    with Inr assms have "err = Error msg" by (simp add: downloadDoc_def)
    with Inl show ?thesis by (simp add: Error_def)
  next
    case dir: (Inr dir)
    let ?t = "tryDownload env (buildExportUrl docId) (pathJoin env dir (docId @ (str ''.docx'')))"
    from assms Inr dir obtain c where c: "?t = Inl c" "err = catchDownload c"
      by (cases ?t) (simp_all add: downloadDoc_base)
    consider "response_status c = Some 404"
      | "response_status c \<noteq> Some 404" "message c \<noteq> [] \<and>
           includesStr (toLowerCase (message c)) (str ''unauthorized access'')"
      | "response_status c \<noteq> Some 404" "\<not> (message c \<noteq> [] \<and>
           includesStr (toLowerCase (message c)) (str ''unauthorized access''))"
      by blast
    then show ?thesis
    proof cases
      case 1
      with c(2) have "err = Error notFoundMsg" by (simp add: catchDownload_def)
      then show ?thesis by simp
    next
      case 2
      with c(2) have e: "err = c" by (simp add: catchDownload_def)
      from tryDownload_error_cases [OF c(1)] 2(2) request_failed_not_unauthorized
      have "response_status c = None" by auto
      then have "c = Error (message c)" by (cases c) (simp add: Error_def)
      with e 2(2) show ?thesis by metis
    next
      case 3
      with c(2) have "err = Error (failedPrefix @ message c)" by (simp add: catchDownload_def)
      then show ?thesis by blast
    qed
  qed
qed

text \<open>
  C4, as amended. \<open>downloadDoc\<close> first fails with the error of \<open>extractDocId\<close> when the URL
  yields no identifier, and with the file system's error when the temporary directory
  cannot be made. Otherwise, leaving aside a response with status 401 or 403:
  a response with a status from 200 to 399 whose content type is missing or does not
  contain the DOCX type fails with the unexpected-response message wrapped in the generic
  one; a response with status 404 fails with the not-found message; a response with any
  other status outside 200 to 399 fails with the generic message around the client's
  message for that status; a transport failure, and a failure to write the file, fail with
  the generic message around the original one, except that an error whose message
  contains \<open>unauthorized access\<close> in any letter case is thrown again unchanged; and a
  DOCX response that is written returns the path of the file. The cases exclude each
  other and cover every call but the responses with status 401 or 403; and every error
  \<open>downloadDoc\<close> throws is an invalid-input error, the error of making the directory, the
  not-found error, a generic error around some message, or an error thrown again for its
  \<open>unauthorized access\<close>.
\<close>

theorem download_outcomes:
  "(downloadDoc env url = Inl err \<longrightarrow>
      invalidInput err \<or> mkdtemp env = Inl (message err) \<or> err = Error notFoundMsg \<or>
      (\<exists>m. err = Error (failedPrefix @ m)) \<or>
      (\<exists>m. err = Error m \<and> includesStr (toLowerCase m) (str ''unauthorized access''))) \<and>
   (extractDocId url = Inl e \<longrightarrow> downloadDoc env url = Inl e) \<and>
   (extractDocId url = Inr docId \<and> mkdtemp env = Inl msg \<longrightarrow>
      downloadDoc env url = Inl (Error msg)) \<and>
   (extractDocId url = Inr docId \<and> mkdtemp env = Inr dir \<longrightarrow>
      (fetch env (buildExportUrl docId) = Answered r \<and> validateStatus (status r) \<and>
       \<not> isDocx (contentType r) \<longrightarrow>
         downloadDoc env url = Inl (Error (failedPrefix @ unexpectedMsg))) \<and>
      (fetch env (buildExportUrl docId) = Answered r \<and> status r = 404 \<longrightarrow>
         downloadDoc env url = Inl (Error notFoundMsg)) \<and>
      (fetch env (buildExportUrl docId) = Answered r \<and> \<not> validateStatus (status r) \<and>
       status r \<noteq> 401 \<and> status r \<noteq> 403 \<and> status r \<noteq> 404 \<longrightarrow>
         downloadDoc env url =
           Inl (Error (failedPrefix @ (str ''Request failed with status code '') @ decimal (status r)))) \<and>
      (fetch env (buildExportUrl docId) = NetworkFailure m \<longrightarrow>
         downloadDoc env url =
           Inl (if includesStr (toLowerCase m) (str ''unauthorized access'') then Error m
                else Error (failedPrefix @ m))) \<and>
      (fetch env (buildExportUrl docId) = Answered r \<and> validateStatus (status r) \<and>
       isDocx (contentType r) \<and>
       writeFile env (pathJoin env dir (docId @ (str ''.docx''))) (data r) = Some m \<longrightarrow>
         downloadDoc env url =
           Inl (if includesStr (toLowerCase m) (str ''unauthorized access'') then Error m
                else Error (failedPrefix @ m))) \<and>
      (fetch env (buildExportUrl docId) = Answered r \<and> validateStatus (status r) \<and>
       isDocx (contentType r) \<and>
       writeFile env (pathJoin env dir (docId @ (str ''.docx''))) (data r) = None \<longrightarrow>
         downloadDoc env url = Inr (pathJoin env dir (docId @ (str ''.docx'')))))"
proof (intro conjI impI)
  assume "downloadDoc env url = Inl err"
  then show "invalidInput err \<or> mkdtemp env = Inl (message err) \<or> err = Error notFoundMsg \<or>
      (\<exists>m. err = Error (failedPrefix @ m)) \<or>
      (\<exists>m. err = Error m \<and> includesStr (toLowerCase m) (str ''unauthorized access''))"
    by (rule download_failure_shapes)
next
  assume "extractDocId url = Inl e"
  then show "downloadDoc env url = Inl e" by (simp add: downloadDoc_def)
next
  assume "extractDocId url = Inr docId \<and> mkdtemp env = Inl msg"
  then show "downloadDoc env url = Inl (Error msg)" by (simp add: downloadDoc_def)
next
  assume b: "extractDocId url = Inr docId \<and> mkdtemp env = Inr dir"
    and h: "fetch env (buildExportUrl docId) = Answered r \<and> validateStatus (status r) \<and>
       \<not> isDocx (contentType r)"
  from h have "tryDownload env (buildExportUrl docId) (pathJoin env dir (docId @ (str ''.docx''))) =
      Inl (Error unexpectedMsg)"
    using validateStatus_cases [of "status r"] by (simp add: tryDownload_def axiosGet_def)
  with b show "downloadDoc env url = Inl (Error (failedPrefix @ unexpectedMsg))"
    by (simp add: downloadDoc_base catchDownload_unexpected)
next
  assume b: "extractDocId url = Inr docId \<and> mkdtemp env = Inr dir"
    and h: "fetch env (buildExportUrl docId) = Answered r \<and> status r = 404"
  from h have "tryDownload env (buildExportUrl docId) (pathJoin env dir (docId @ (str ''.docx''))) =
      Inl \<lparr>message = (str ''Request failed with status code '') @ decimal 404,
           response_status = Some 404\<rparr>"
    by (simp add: tryDownload_def axiosGet_def validateStatus_def)
  with b show "downloadDoc env url = Inl (Error notFoundMsg)"
    by (simp only: downloadDoc_base sum.case catchDownload_404)
next
  assume b: "extractDocId url = Inr docId \<and> mkdtemp env = Inr dir"
    and h: "fetch env (buildExportUrl docId) = Answered r \<and> \<not> validateStatus (status r) \<and>
       status r \<noteq> 401 \<and> status r \<noteq> 403 \<and> status r \<noteq> 404"
  from h have "tryDownload env (buildExportUrl docId) (pathJoin env dir (docId @ (str ''.docx''))) =
      Inl \<lparr>message = (str ''Request failed with status code '') @ decimal (status r),
           response_status = Some (status r)\<rparr>"
    by (simp add: tryDownload_def axiosGet_def)
  moreover from h have ne: "status r \<noteq> 404" by simp
  ultimately show "downloadDoc env url =
           Inl (Error (failedPrefix @ (str ''Request failed with status code '') @ decimal (status r)))"
    using b by (simp only: downloadDoc_base sum.case catchDownload_rejected [OF ne])
next
  assume b: "extractDocId url = Inr docId \<and> mkdtemp env = Inr dir"
    and h: "fetch env (buildExportUrl docId) = NetworkFailure m"
  from h have "tryDownload env (buildExportUrl docId) (pathJoin env dir (docId @ (str ''.docx''))) =
      Inl (Error m)"
    by (simp add: tryDownload_def axiosGet_def Error_def)
  with b show "downloadDoc env url =
           Inl (if includesStr (toLowerCase m) (str ''unauthorized access'') then Error m
                else Error (failedPrefix @ m))"
    by (simp only: downloadDoc_base sum.case catchDownload_Error)
next
  assume b: "extractDocId url = Inr docId \<and> mkdtemp env = Inr dir"
    and h: "fetch env (buildExportUrl docId) = Answered r \<and> validateStatus (status r) \<and>
       isDocx (contentType r) \<and>
       writeFile env (pathJoin env dir (docId @ (str ''.docx''))) (data r) = Some m"
  from h have "tryDownload env (buildExportUrl docId) (pathJoin env dir (docId @ (str ''.docx''))) =
      Inl (Error m)"
    using validateStatus_cases [of "status r"] by (simp add: tryDownload_def axiosGet_def)
  with b show "downloadDoc env url =
           Inl (if includesStr (toLowerCase m) (str ''unauthorized access'') then Error m
                else Error (failedPrefix @ m))"
    by (simp only: downloadDoc_base sum.case catchDownload_Error)
next
  assume b: "extractDocId url = Inr docId \<and> mkdtemp env = Inr dir"
    and h: "fetch env (buildExportUrl docId) = Answered r \<and> validateStatus (status r) \<and>
       isDocx (contentType r) \<and>
       writeFile env (pathJoin env dir (docId @ (str ''.docx''))) (data r) = None"
  from h have "tryDownload env (buildExportUrl docId) (pathJoin env dir (docId @ (str ''.docx''))) =
      Inr (pathJoin env dir (docId @ (str ''.docx'')))"
    using validateStatus_cases [of "status r"] by (simp add: tryDownload_def axiosGet_def)
  with b show "downloadDoc env url = Inr (pathJoin env dir (docId @ (str ''.docx'')))"
    by (simp only: downloadDoc_base sum.case)
qed

theorem download_outcomes_witness:
  "downloadDoc publicDocEnv (JStr (str ''https://example.com/'')) =
     Inl (Error (str ''Invalid Google Docs URL: Unable to extract document ID.'')) \<and>
   downloadDoc (publicDocEnv\<lparr>mkdtemp := Inl (str ''EACCES: permission denied'')\<rparr>)
     (JStr (str ''https://docs.google.com/document/d/ABC/edit'')) =
     Inl (Error (str ''EACCES: permission denied'')) \<and>
   downloadDoc privateDocEnv (JStr (str ''https://docs.google.com/document/d/ABC/edit'')) =
     Inl (Error (failedPrefix @ unexpectedMsg)) \<and>
   downloadDoc
     (publicDocEnv\<lparr>fetch := (\<lambda>u. Answered \<lparr>status = 404, contentType = None, data = []\<rparr>)\<rparr>)
     (JStr (str ''https://docs.google.com/document/d/ABC/edit'')) = Inl (Error notFoundMsg) \<and>
   downloadDoc
     (publicDocEnv\<lparr>fetch := (\<lambda>u. Answered \<lparr>status = 500, contentType = None, data = []\<rparr>)\<rparr>)
     (JStr (str ''https://docs.google.com/document/d/ABC/edit'')) =
     Inl (Error (failedPrefix @ (str ''Request failed with status code 500''))) \<and>
   downloadDoc (publicDocEnv\<lparr>fetch := (\<lambda>u. NetworkFailure (str ''socket hang up''))\<rparr>)
     (JStr (str ''https://docs.google.com/document/d/ABC/edit'')) =
     Inl (Error (failedPrefix @ (str ''socket hang up''))) \<and>
   downloadDoc (publicDocEnv\<lparr>writeFile := (\<lambda>p d. Some (str ''ENOSPC: no space left on device''))\<rparr>)
     (JStr (str ''https://docs.google.com/document/d/ABC/edit'')) =
     Inl (Error (failedPrefix @ (str ''ENOSPC: no space left on device''))) \<and>
   downloadDoc publicDocEnv (JStr (str ''https://docs.google.com/document/d/ABC/edit'')) =
     Inr (str ''/tmp/gdoc-parser-a1/ABC.docx'') \<and>
   (invalidInput (Error (str ''Invalid Google Docs URL: Unable to extract document ID.'')) \<or>
    mkdtemp publicDocEnv =
      Inl (message (Error (str ''Invalid Google Docs URL: Unable to extract document ID.''))) \<or>
    Error (str ''Invalid Google Docs URL: Unable to extract document ID.'') = Error notFoundMsg \<or>
    (\<exists>m. Error (str ''Invalid Google Docs URL: Unable to extract document ID.'') =
          Error (failedPrefix @ m)) \<or>
    (\<exists>m. Error (str ''Invalid Google Docs URL: Unable to extract document ID.'') = Error m \<and>
         includesStr (toLowerCase m) (str ''unauthorized access'')))"
proof -
  let ?good = "JStr (str ''https://docs.google.com/document/d/ABC/edit'')"
  let ?bad = "JStr (str ''https://example.com/'')"
  let ?E = "Error (str ''Invalid Google Docs URL: Unable to extract document ID.'')"
  let ?envDir = "publicDocEnv\<lparr>mkdtemp := Inl (str ''EACCES: permission denied'')\<rparr>"
  let ?r404 = "\<lparr>status = 404, contentType = None, data = []\<rparr>"
  let ?r500 = "\<lparr>status = 500, contentType = None, data = []\<rparr>"
  let ?rHtml = "\<lparr>status = 200, contentType = Some (str ''text/html; charset=utf-8''), data = (str ''<html>'')\<rparr>"
  let ?rDocx = "\<lparr>status = 200, contentType = Some docxMime, data = (str ''PK'')\<rparr>"
  let ?env404 = "publicDocEnv\<lparr>fetch := (\<lambda>u. Answered ?r404)\<rparr>"
  let ?env500 = "publicDocEnv\<lparr>fetch := (\<lambda>u. Answered ?r500)\<rparr>"
  let ?envNet = "publicDocEnv\<lparr>fetch := (\<lambda>u. NetworkFailure (str ''socket hang up''))\<rparr>"
  let ?envFull = "publicDocEnv\<lparr>writeFile := (\<lambda>p d. Some (str ''ENOSPC: no space left on device''))\<rparr>"
  let ?dir = "(str ''/tmp/gdoc-parser-a1'')"
  have h1: "extractDocId ?bad = Inl ?E"
    by code_simp
  have c1: "downloadDoc publicDocEnv ?bad = Inl ?E"
    using download_outcomes [where url = ?bad and env = publicDocEnv and e = ?E,
        THEN conjunct2, THEN conjunct1, THEN mp, OF h1] .
  have c0: "invalidInput ?E \<or> mkdtemp publicDocEnv = Inl (message ?E) \<or> ?E = Error notFoundMsg \<or>
      (\<exists>m. ?E = Error (failedPrefix @ m)) \<or>
      (\<exists>m. ?E = Error m \<and> includesStr (toLowerCase m) (str ''unauthorized access''))"
    using download_outcomes [where url = ?bad and env = publicDocEnv and err = ?E,
        THEN conjunct1, THEN mp, OF c1] .
  have h2: "extractDocId ?good = Inr (str ''ABC'') \<and> mkdtemp ?envDir = Inl (str ''EACCES: permission denied'')"
    by code_simp
  have c2: "downloadDoc ?envDir ?good = Inl (Error (str ''EACCES: permission denied''))"
    using download_outcomes [where url = ?good and env = ?envDir and docId = "(str ''ABC'')"
        and msg = "(str ''EACCES: permission denied'')",
        THEN conjunct2, THEN conjunct2, THEN conjunct1, THEN mp, OF h2] .
  have b3: "extractDocId ?good = Inr (str ''ABC'') \<and> mkdtemp privateDocEnv = Inr ?dir"
    by code_simp
  have h3: "fetch privateDocEnv (buildExportUrl (str ''ABC'')) = Answered ?rHtml \<and>
      validateStatus (status ?rHtml) \<and> \<not> isDocx (contentType ?rHtml)"
    by code_simp
  have c3: "downloadDoc privateDocEnv ?good = Inl (Error (failedPrefix @ unexpectedMsg))"
    using download_outcomes [where url = ?good and env = privateDocEnv and docId = "(str ''ABC'')"
        and dir = ?dir and r = ?rHtml,
        THEN conjunct2, THEN conjunct2, THEN conjunct2, THEN mp, OF b3, THEN conjunct1,
        THEN mp, OF h3] .
  have b4: "extractDocId ?good = Inr (str ''ABC'') \<and> mkdtemp ?env404 = Inr ?dir"
    by code_simp
  have h4: "fetch ?env404 (buildExportUrl (str ''ABC'')) = Answered ?r404 \<and> status ?r404 = 404"
    by code_simp
  have c4: "downloadDoc ?env404 ?good = Inl (Error notFoundMsg)"
    using download_outcomes [where url = ?good and env = ?env404 and docId = "(str ''ABC'')"
        and dir = ?dir and r = ?r404,
        THEN conjunct2, THEN conjunct2, THEN conjunct2, THEN mp, OF b4, THEN conjunct2,
        THEN conjunct1, THEN mp, OF h4] .
  have b5: "extractDocId ?good = Inr (str ''ABC'') \<and> mkdtemp ?env500 = Inr ?dir"
    by code_simp
  have h5: "fetch ?env500 (buildExportUrl (str ''ABC'')) = Answered ?r500 \<and>
      \<not> validateStatus (status ?r500) \<and> status ?r500 \<noteq> 401 \<and> status ?r500 \<noteq> 403 \<and>
      status ?r500 \<noteq> 404"
    by code_simp
  have r5: "(str ''Request failed with status code '') @ decimal (status ?r500) =
      (str ''Request failed with status code 500'')"
    by code_simp
  have c5: "downloadDoc ?env500 ?good =
      Inl (Error (failedPrefix @ (str ''Request failed with status code 500'')))"
    using download_outcomes [where url = ?good and env = ?env500 and docId = "(str ''ABC'')"
        and dir = ?dir and r = ?r500,
        THEN conjunct2, THEN conjunct2, THEN conjunct2, THEN mp, OF b5, THEN conjunct2,
        THEN conjunct2, THEN conjunct1, THEN mp, OF h5] unfolding r5 .
  have b6: "extractDocId ?good = Inr (str ''ABC'') \<and> mkdtemp ?envNet = Inr ?dir"
    by code_simp
  have h6: "fetch ?envNet (buildExportUrl (str ''ABC'')) = NetworkFailure (str ''socket hang up'')"
    by code_simp
  have r6: "(if includesStr (toLowerCase (str ''socket hang up'')) (str ''unauthorized access'')
       then Error (str ''socket hang up'') else Error (failedPrefix @ (str ''socket hang up''))) =
      Error (failedPrefix @ (str ''socket hang up''))"
    by code_simp
  have c6: "downloadDoc ?envNet ?good = Inl (Error (failedPrefix @ (str ''socket hang up'')))"
    using download_outcomes [where url = ?good and env = ?envNet and docId = "(str ''ABC'')"
        and dir = ?dir and m = "(str ''socket hang up'')",
        THEN conjunct2, THEN conjunct2, THEN conjunct2, THEN mp, OF b6, THEN conjunct2,
        THEN conjunct2, THEN conjunct2, THEN conjunct1, THEN mp, OF h6] unfolding r6 .
  let ?full = "(str ''ENOSPC: no space left on device'')"
  have b7: "extractDocId ?good = Inr (str ''ABC'') \<and> mkdtemp ?envFull = Inr ?dir"
    by code_simp
  have h7: "fetch ?envFull (buildExportUrl (str ''ABC'')) = Answered ?rDocx \<and>
      validateStatus (status ?rDocx) \<and> isDocx (contentType ?rDocx) \<and>
      writeFile ?envFull (pathJoin ?envFull ?dir ((str ''ABC'') @ (str ''.docx''))) (data ?rDocx) = Some ?full"
    by code_simp
  have r7: "(if includesStr (toLowerCase ?full) (str ''unauthorized access'')
       then Error ?full else Error (failedPrefix @ ?full)) = Error (failedPrefix @ ?full)"
    by code_simp
  have c7: "downloadDoc ?envFull ?good = Inl (Error (failedPrefix @ ?full))"
    using download_outcomes [where url = ?good and env = ?envFull and docId = "(str ''ABC'')"
        and dir = ?dir and r = ?rDocx and m = ?full,
        THEN conjunct2, THEN conjunct2, THEN conjunct2, THEN mp, OF b7, THEN conjunct2,
        THEN conjunct2, THEN conjunct2, THEN conjunct2, THEN conjunct1, THEN mp, OF h7]
    unfolding r7 .
  have b8: "extractDocId ?good = Inr (str ''ABC'') \<and> mkdtemp publicDocEnv = Inr ?dir"
    by code_simp
  have h8: "fetch publicDocEnv (buildExportUrl (str ''ABC'')) = Answered ?rDocx \<and>
      validateStatus (status ?rDocx) \<and> isDocx (contentType ?rDocx) \<and>
      writeFile publicDocEnv (pathJoin publicDocEnv ?dir ((str ''ABC'') @ (str ''.docx''))) (data ?rDocx) = None"
    by code_simp
  have r8: "pathJoin publicDocEnv ?dir ((str ''ABC'') @ (str ''.docx'')) = (str ''/tmp/gdoc-parser-a1/ABC.docx'')"
    by code_simp
  have c8: "downloadDoc publicDocEnv ?good = Inr (str ''/tmp/gdoc-parser-a1/ABC.docx'')"
    using download_outcomes [where url = ?good and env = publicDocEnv and docId = "(str ''ABC'')"
        and dir = ?dir and r = ?rDocx,
        THEN conjunct2, THEN conjunct2, THEN conjunct2, THEN mp, OF b8, THEN conjunct2,
        THEN conjunct2, THEN conjunct2, THEN conjunct2, THEN conjunct2, THEN mp, OF h8]
    unfolding r8 .
  show ?thesis
    by (rule conjI c1 c2 c3 c4 c5 c6 c7 c8 c0)+
qed

text \<open>
  C4 as stated fails. A call with a URL that yields no identifier fails with an error
  that is none of the four outcomes. A response that is not DOCX fails with an error that
  is two of them at once: the unexpected-response message inside the generic one.
\<close>

theorem download_outcomes_counterexample:
  "downloadDoc publicDocEnv (JStr (str ''https://example.com/'')) =
     Inl (Error (str ''Invalid Google Docs URL: Unable to extract document ID.'')) \<and>
   \<not> unauthorizedOutcome (Error (str ''Invalid Google Docs URL: Unable to extract document ID.'')) \<and>
   \<not> unexpectedOutcome (Error (str ''Invalid Google Docs URL: Unable to extract document ID.'')) \<and>
   \<not> notFoundOutcome (Error (str ''Invalid Google Docs URL: Unable to extract document ID.'')) \<and>
   \<not> genericOutcome (Error (str ''Invalid Google Docs URL: Unable to extract document ID.'')) \<and>
   downloadDoc privateDocEnv (JStr (str ''https://docs.google.com/document/d/ABC/edit'')) =
     Inl (Error (failedPrefix @ unexpectedMsg)) \<and>
   unexpectedOutcome (Error (failedPrefix @ unexpectedMsg)) \<and>
   genericOutcome (Error (failedPrefix @ unexpectedMsg))"
  by code_simp

text \<open>
  What the amended C4 leaves aside: the test for the statuses 401 and 403 is applied only
  to a response that \<open>validateStatus\<close> has accepted, and it accepts neither status. A
  response with status 403 is rejected by the client and leaves \<open>downloadDoc\<close> as a generic
  failure, which the endpoint answers with 500.
\<close>

lemma forbidden_response_is_generic:
  "downloadDoc
     (publicDocEnv\<lparr>fetch := (\<lambda>u. Answered \<lparr>status = 403, contentType = None, data = []\<rparr>)\<rparr>)
     (JStr (str ''https://docs.google.com/document/d/ABC/edit'')) =
     Inl (Error (failedPrefix @ (str ''Request failed with status code 403''))) \<and>
   statusFor (failedPrefix @ (str ''Request failed with status code 403'')) = 500"
  by code_simp

end
